theory Spec2Isabelle
  imports Complex_Main "HOL-Library.Sublist"
begin

unbundle bit_operations_syntax

section \<open>FATS: a passthrough filesystem that fuzzes files on open\<close>

text \<open>
  The development embeds \<^verbatim>\<open>src/fats.py\<close>. Python strings are \<open>string\<close>, Python
  integers are \<open>int\<close> (file descriptors, which are never negative, are \<open>nat\<close>), the
  instance dictionary \<^verbatim>\<open>self.temp_files\<close> is a map from descriptors to paths. Every
  exception of the source is a value of \<open>error + 'a\<close>; the \<^verbatim>\<open>print\<close> calls are left
  out.
  The host operating system is an explicit \<open>world\<close> that each driver call reads or
  updates; what the kernel decides beyond the modelled state (permissions, descriptor
  exhaustion, a full disk) enters as an optional injected \<open>errno\<close>.
\<close>

subsection \<open>Strings and \<^verbatim>\<open>os.path\<close>\<close>

type_synonym path = string

definition sep :: char where
  "sep = CHR ''/''"

text \<open>\<^verbatim>\<open>s.startswith("/")\<close> and \<^verbatim>\<open>s.endswith("/")\<close>.\<close>

definition startswith_sep :: "string \<Rightarrow> bool" where
  "startswith_sep s = (case s of [] \<Rightarrow> False | c # _ \<Rightarrow> c = sep)"

definition endswith_sep :: "string \<Rightarrow> bool" where
  "endswith_sep s = (s \<noteq> [] \<and> last s = sep)"

text \<open>
  \<^verbatim>\<open>posixpath.join(a, b)\<close>: an absolute second argument replaces the first, otherwise
  the two are put together with exactly one separator between them.
\<close>

definition posix_join :: "path \<Rightarrow> path \<Rightarrow> path" where
  "posix_join a b =
     (if startswith_sep b \<or> a = [] then b
      else if endswith_sep a then a @ b
      else a @ [sep] @ b)"

text \<open>\<^verbatim>\<open>s.split("/")\<close>: never empty, \<open>n\<close> separators give \<open>n + 1\<close> pieces.\<close>

fun split_sep :: "string \<Rightarrow> string list" where
  "split_sep [] = [[]]"
| "split_sep (c # cs) =
     (if c = sep then [] # split_sep cs
      else (case split_sep cs of [] \<Rightarrow> [[c]] | w # ws \<Rightarrow> (c # w) # ws))"

text \<open>\<^verbatim>\<open>"/".join(comps)\<close>.\<close>

fun sep_join :: "string list \<Rightarrow> string" where
  "sep_join [] = []"
| "sep_join [c] = c"
| "sep_join (c # cs) = c @ [sep] @ sep_join cs"

text \<open>
  \<^verbatim>\<open>posixpath.normpath\<close>. \<open>initial_slashes\<close> is 0, 1 or 2 (exactly two leading
  slashes are kept, three or more collapse to one); the loop over the components is
  \<open>norm_step\<close> folded from the left.
\<close>

definition initial_slashes :: "string \<Rightarrow> nat" where
  "initial_slashes p =
     (if \<not> startswith_sep p then 0
      else if startswith_sep (drop 1 p) \<and> \<not> startswith_sep (drop 2 p) then 2
      else 1)"

definition norm_step :: "nat \<Rightarrow> string list \<Rightarrow> string \<Rightarrow> string list" where
  "norm_step ini new_comps cmp =
     (if cmp = [] \<or> cmp = ''.'' then new_comps
      else if cmp \<noteq> ''..'' \<or> (ini = 0 \<and> new_comps = [])
              \<or> (new_comps \<noteq> [] \<and> last new_comps = ''..'')
           then new_comps @ [cmp]
      else if new_comps \<noteq> [] then butlast new_comps
      else new_comps)"

definition normpath :: "path \<Rightarrow> path" where
  "normpath p =
     (if p = [] then ''.''
      else
        let ini = initial_slashes p;
            comps = foldl (norm_step ini) [] (split_sep p);
            q = replicate ini sep @ sep_join comps
        in if q = [] then ''.'' else q)"

text \<open>
  \<^verbatim>\<open>posixpath.dirname\<close>: everything up to the last separator, trailing separators
  stripped unless nothing else is left.
\<close>

definition dirname :: "path \<Rightarrow> path" where
  "dirname p =
     (let head = rev (dropWhile (\<lambda>c. c \<noteq> sep) (rev p))
      in if head \<noteq> [] \<and> head \<noteq> replicate (length head) sep
         then rev (dropWhile (\<lambda>c. c = sep) (rev head))
         else head)"

text \<open>
  \<^verbatim>\<open>posixpath.abspath\<close>; the process's working directory \<open>cwd\<close> is a parameter
  (\<^verbatim>\<open>os.getcwd()\<close>).
\<close>

definition abspath :: "path \<Rightarrow> path \<Rightarrow> path" where
  "abspath cwd p = normpath (if startswith_sep p then p else posix_join cwd p)"

text \<open>The non-empty pieces of a path: \<^verbatim>\<open>[x for x in abspath(p).split(sep) if x]\<close>.\<close>

definition components :: "path \<Rightarrow> string list" where
  "components p = filter (\<lambda>x. x \<noteq> []) (split_sep p)"

text \<open>
  \<^verbatim>\<open>len(commonprefix([start_list, path_list]))\<close>: the number of leading items on
  which the two lists agree.
\<close>

fun common_prefix_len :: "'a list \<Rightarrow> 'a list \<Rightarrow> nat" where
  "common_prefix_len (x # xs) (y # ys) = (if x = y then Suc (common_prefix_len xs ys) else 0)"
| "common_prefix_len _ _ = 0"

text \<open>\<^verbatim>\<open>join(*rel_list)\<close> for a non-empty list.\<close>

definition join_list :: "string list \<Rightarrow> path" where
  "join_list xs = (case xs of [] \<Rightarrow> [] | a # p \<Rightarrow> foldl posix_join a p)"

text \<open>
  Exceptions. \<^verbatim>\<open>FuseOSError\<close> is the subclass of \<^verbatim>\<open>OSError\<close> the source raises
  itself; \<open>OSError\<close> is what a driver call raises and the source lets through. Both
  carry an \<open>errno\<close>, which the host runtime hands to the kernel.
\<close>

datatype errno = EPERM | ENOENT | EIO | EBADF | EACCES | EEXIST | ENOTDIR | EISDIR
  | EINVAL | EMFILE | ENOSPC | ELOOP

datatype error = FuseOSError errno | OSError errno | ValueError

text \<open>\<^verbatim>\<open>posixpath.relpath(path, start)\<close>; an empty \<open>path\<close> raises \<^verbatim>\<open>ValueError\<close>.\<close>

definition relpath :: "path \<Rightarrow> path \<Rightarrow> path \<Rightarrow> error + path" where
  "relpath cwd p start =
     (if p = [] then Inl ValueError
      else
        let start_list = components (abspath cwd start);
            path_list = components (abspath cwd p);
            i = common_prefix_len start_list path_list;
            rel_list = replicate (length start_list - i) ''..'' @ drop i path_list
        in if rel_list = [] then Inr ''.'' else Inr (join_list rel_list))"

subsection \<open>The filesystem object and its path mapper\<close>

type_synonym fd = nat

record fats =
  root :: path
  temp_files :: "fd \<rightharpoonup> path"

text \<open>\<^verbatim>\<open>FATS.__init__\<close>.\<close>

definition init :: "path \<Rightarrow> fats" where
  "init r = \<lparr>root = r, temp_files = Map.empty\<rparr>"

text \<open>\<^verbatim>\<open>FATS._full_path\<close>: \<^verbatim>\<open>partial[1:]\<close> drops one leading character.\<close>

definition full_path :: "fats \<Rightarrow> path \<Rightarrow> path" where
  "full_path self partial =
     (let partial' = (if startswith_sep partial then drop 1 partial else partial)
      in posix_join (root self) partial')"

subsection \<open>The host operating system\<close>

type_synonym bytes = string

text \<open>
  What the kernel keeps for an inode besides its content. Timestamps are Python
  floats, copied and never computed with.
\<close>

record inode_meta =
  perm :: int
  nlink :: int
  uid :: int
  gid :: int
  atime :: real
  mtime :: real
  ctime :: real
  dev :: int
  blksize :: int

datatype node =
    Regular inode_meta bytes
  | Directory inode_meta "string list"
  | Symlink inode_meta path

text \<open>The driver calls that change something, in the order they were made.\<close>

datatype event =
    Ev_tempfile path
  | Ev_run "string list" fd
  | Ev_remove path
  | Ev_open path int int
  | Ev_close fd
  | Ev_truncate path int

record world =
  nodes :: "path \<rightharpoonup> node"
  fds :: "(fd \<times> path) list"
  cwd :: path
  new_meta :: inode_meta
  trace :: "event list"

definition log :: "event \<Rightarrow> world \<Rightarrow> world" where
  "log e w = w\<lparr>trace := trace w @ [e]\<rparr>"

definition fd_open :: "world \<Rightarrow> fd \<Rightarrow> bool" where
  "fd_open w fh = (fh \<in> fst ` set (fds w))"

text \<open>
  A new descriptor is the lowest number not in use. Among the numbers
  \<open>0 .. length used\<close> one is free, so \<open>length used\<close> steps of search are enough.
\<close>

fun lowest_free :: "nat \<Rightarrow> fd list \<Rightarrow> fd \<Rightarrow> fd" where
  "lowest_free 0 used n = n"
| "lowest_free (Suc k) used n = (if n \<in> set used then lowest_free k used (Suc n) else n)"

definition fresh_fd :: "world \<Rightarrow> fd" where
  "fresh_fd w = lowest_free (length (fds w)) (map fst (fds w)) 0"

text \<open>
  Following symbolic links in the last component, at most 40 of them
  (then \<open>ELOOP\<close>). Paths are looked up as the strings they are.
\<close>

fun follow :: "nat \<Rightarrow> (path \<rightharpoonup> node) \<Rightarrow> path \<Rightarrow> errno + path" where
  "follow 0 ns p = Inl ELOOP"
| "follow (Suc k) ns p =
     (case ns p of
        Some (Symlink m t) \<Rightarrow> follow k ns (posix_join (dirname p) t)
      | _ \<Rightarrow> Inr p)"

definition O_WRONLY :: int where "O_WRONLY = 1"
definition O_RDWR :: int where "O_RDWR = 2"
definition O_CREAT :: int where "O_CREAT = 64"
definition O_EXCL :: int where "O_EXCL = 128"
definition O_TRUNC :: int where "O_TRUNC = 512"
definition O_DIRECTORY :: int where "O_DIRECTORY = 65536"

definition has_flag :: "int \<Rightarrow> int \<Rightarrow> bool" where
  "has_flag f flags = (flags AND f \<noteq> 0)"

definition S_IFMT :: int where "S_IFMT = 61440"
definition S_IFREG :: int where "S_IFREG = 32768"
definition S_IFDIR :: int where "S_IFDIR = 16384"
definition S_IFLNK :: int where "S_IFLNK = 40960"

text \<open>
  \<^verbatim>\<open>os.open(path, flags, mode)\<close>. \<open>fault\<close> is a refusal the model does not compute.
  A created file gets the permission bits of \<open>mode\<close> (the process's umask is taken
  to be 0) and the kernel's metadata for a new inode.
\<close>

definition os_open :: "errno option \<Rightarrow> path \<Rightarrow> int \<Rightarrow> int \<Rightarrow> world \<Rightarrow> (errno + fd) \<times> world" where
  "os_open fault p flags mode w =
     (let w0 = log (Ev_open p flags mode) w; fh = fresh_fd w in
      case fault of
        Some e \<Rightarrow> (Inl e, w0)
      | None \<Rightarrow>
          if has_flag O_CREAT flags \<and> has_flag O_EXCL flags \<and> nodes w p \<noteq> None
          then (Inl EEXIST, w0)
          else
            (case follow 40 (nodes w) p of
               Inl e \<Rightarrow> (Inl e, w0)
             | Inr q \<Rightarrow>
                 (case nodes w q of
                    None \<Rightarrow>
                      if has_flag O_CREAT flags
                      then (Inr fh,
                            w0\<lparr>nodes := (nodes w)(q \<mapsto> Regular ((new_meta w)\<lparr>perm := mode AND 4095\<rparr>) []),
                               fds := (fh, q) # fds w\<rparr>)
                      else (Inl ENOENT, w0)
                  | Some (Regular m b) \<Rightarrow>
                      if has_flag O_DIRECTORY flags then (Inl ENOTDIR, w0)
                      else if has_flag O_TRUNC flags
                      then (Inr fh, w0\<lparr>nodes := (nodes w)(q \<mapsto> Regular m []), fds := (fh, q) # fds w\<rparr>)
                      else (Inr fh, w0\<lparr>fds := (fh, q) # fds w\<rparr>)
                  | Some (Directory m es) \<Rightarrow>
                      if has_flag O_WRONLY flags \<or> has_flag O_RDWR flags \<or> has_flag O_CREAT flags
                      then (Inl EISDIR, w0)
                      else (Inr fh, w0\<lparr>fds := (fh, q) # fds w\<rparr>)
                  | Some (Symlink m t) \<Rightarrow> (Inl ELOOP, w0))))"

text \<open>\<^verbatim>\<open>os.close(fd)\<close>: the descriptor is released even when the call reports an error.\<close>

definition os_close :: "errno option \<Rightarrow> fd \<Rightarrow> world \<Rightarrow> (errno + unit) \<times> world" where
  "os_close fault fh w =
     (let w0 = log (Ev_close fh) w in
      if fd_open w fh
      then (case fault of Some e \<Rightarrow> Inl e | None \<Rightarrow> Inr (),
            w0\<lparr>fds := filter (\<lambda>e. fst e \<noteq> fh) (fds w)\<rparr>)
      else (Inl EBADF, w0))"

text \<open>\<^verbatim>\<open>os.remove(path)\<close>: removes the name itself, never what a link points to.\<close>

definition os_remove :: "errno option \<Rightarrow> path \<Rightarrow> world \<Rightarrow> (errno + unit) \<times> world" where
  "os_remove fault p w =
     (let w0 = log (Ev_remove p) w in
      case fault of
        Some e \<Rightarrow> (Inl e, w0)
      | None \<Rightarrow>
          (case nodes w p of
             None \<Rightarrow> (Inl ENOENT, w0)
           | Some (Directory m es) \<Rightarrow> (Inl EISDIR, w0)
           | Some _ \<Rightarrow> (Inr (), w0\<lparr>nodes := (nodes w)(p := None)\<rparr>)))"

text \<open>Writing through a descriptor appends to the file it was opened on.\<close>

definition os_write :: "fd \<Rightarrow> bytes \<Rightarrow> world \<Rightarrow> world" where
  "os_write fh buf w =
     (case map_of (fds w) fh of
        None \<Rightarrow> w
      | Some q \<Rightarrow>
          (case nodes w q of
             Some (Regular m b) \<Rightarrow> w\<lparr>nodes := (nodes w)(q \<mapsto> Regular m (b @ buf))\<rparr>
           | _ \<Rightarrow> w))"

text \<open>\<^verbatim>\<open>ftruncate\<close>: cuts the file or pads it with zero bytes.\<close>

definition os_ftruncate :: "fd \<Rightarrow> int \<Rightarrow> world \<Rightarrow> (errno + unit) \<times> world" where
  "os_ftruncate fh len w =
     (case map_of (fds w) fh of
        None \<Rightarrow> (Inl EBADF, w)
      | Some q \<Rightarrow>
          (let w0 = log (Ev_truncate q len) w in
           if len < 0 then (Inl EINVAL, w0)
           else
             (case nodes w q of
                Some (Regular m b) \<Rightarrow>
                  (Inr (), w0\<lparr>nodes := (nodes w)(q \<mapsto>
                     Regular m (take (nat len) b @ replicate (nat len - length b) (CHR 0x00)))\<rparr>)
              | _ \<Rightarrow> (Inl EINVAL, w0))))"

text \<open>What a process reading \<open>p\<close> gets.\<close>

definition read_file :: "world \<Rightarrow> path \<Rightarrow> bytes option" where
  "read_file w p =
     (case follow 40 (nodes w) p of
        Inl e \<Rightarrow> None
      | Inr q \<Rightarrow> (case nodes w q of Some (Regular m b) \<Rightarrow> Some b | _ \<Rightarrow> None))"

text \<open>\<^verbatim>\<open>os.lstat\<close>: the attributes of the name itself; a link is not followed.\<close>

record stat_result =
  st_mode :: int
  st_dev :: int
  st_nlink :: int
  st_uid :: int
  st_gid :: int
  st_size :: int
  st_atime :: real
  st_mtime :: real
  st_ctime :: real
  st_blksize :: int

definition stat_of :: "int \<Rightarrow> inode_meta \<Rightarrow> int \<Rightarrow> stat_result" where
  "stat_of ifmt m sz =
     \<lparr>st_mode = ifmt OR (perm m AND 4095), st_dev = dev m, st_nlink = nlink m,
      st_uid = uid m, st_gid = gid m, st_size = sz,
      st_atime = atime m, st_mtime = mtime m, st_ctime = ctime m,
      st_blksize = blksize m\<rparr>"

definition node_stat :: "node \<Rightarrow> stat_result" where
  "node_stat n =
     (case n of
        Regular m b \<Rightarrow> stat_of S_IFREG m (int (length b))
      | Directory m es \<Rightarrow> stat_of S_IFDIR m (blksize m)
      | Symlink m t \<Rightarrow> stat_of S_IFLNK m (int (length t)))"

definition os_lstat :: "errno option \<Rightarrow> world \<Rightarrow> path \<Rightarrow> errno + stat_result" where
  "os_lstat fault w p =
     (case fault of
        Some e \<Rightarrow> Inl e
      | None \<Rightarrow> (case nodes w p of None \<Rightarrow> Inl ENOENT | Some n \<Rightarrow> Inr (node_stat n)))"

text \<open>\<^verbatim>\<open>os.stat\<close>, which the source never calls on a virtual path: the link is followed.\<close>

definition os_stat :: "errno option \<Rightarrow> world \<Rightarrow> path \<Rightarrow> errno + stat_result" where
  "os_stat fault w p =
     (case fault of
        Some e \<Rightarrow> Inl e
      | None \<Rightarrow>
          (case follow 40 (nodes w) p of
             Inl e \<Rightarrow> Inl e
           | Inr q \<Rightarrow> (case nodes w q of None \<Rightarrow> Inl ENOENT | Some n \<Rightarrow> Inr (node_stat n))))"

text \<open>\<^verbatim>\<open>os.path.isdir\<close>: \<^verbatim>\<open>os.stat\<close> with every failure read as "no".\<close>

definition isdir :: "world \<Rightarrow> path \<Rightarrow> bool" where
  "isdir w p =
     (case os_stat None w p of
        Inl e \<Rightarrow> False
      | Inr st \<Rightarrow> st_mode st AND S_IFMT = S_IFDIR)"

text \<open>\<^verbatim>\<open>os.listdir\<close>.\<close>

definition os_listdir :: "errno option \<Rightarrow> world \<Rightarrow> path \<Rightarrow> errno + string list" where
  "os_listdir fault w p =
     (case fault of
        Some e \<Rightarrow> Inl e
      | None \<Rightarrow>
          (case follow 40 (nodes w) p of
             Inl e \<Rightarrow> Inl e
           | Inr q \<Rightarrow>
               (case nodes w q of
                  None \<Rightarrow> Inl ENOENT
                | Some (Directory m es) \<Rightarrow> Inr es
                | Some _ \<Rightarrow> Inl ENOTDIR)))"

text \<open>\<^verbatim>\<open>os.readlink\<close>.\<close>

definition os_readlink :: "errno option \<Rightarrow> world \<Rightarrow> path \<Rightarrow> errno + path" where
  "os_readlink fault w p =
     (case fault of
        Some e \<Rightarrow> Inl e
      | None \<Rightarrow>
          (case nodes w p of
             None \<Rightarrow> Inl ENOENT
           | Some (Symlink m t) \<Rightarrow> Inr t
           | Some _ \<Rightarrow> Inl EINVAL))"

subsection \<open>\<^verbatim>\<open>tempfile\<close> and \<^verbatim>\<open>subprocess\<close>\<close>

text \<open>
  \<^verbatim>\<open>tempfile.NamedTemporaryFile(delete=False)\<close> draws random names
  \<^verbatim>\<open>tmpXXXXXXXX\<close> in the scratch directory until one is unused and creates it
  exclusively with mode \<^verbatim>\<open>0o600\<close>. The names drawn are a parameter; when all
  collide it raises \<^verbatim>\<open>FileExistsError\<close>. The result is the open file object
  (its descriptor) and its name.
\<close>

fun first_unused :: "(path \<rightharpoonup> node) \<Rightarrow> path \<Rightarrow> string list \<Rightarrow> path option" where
  "first_unused ns dir [] = None"
| "first_unused ns dir (n # names) =
     (let file = posix_join dir (''tmp'' @ n)
      in if ns file = None then Some file else first_unused ns dir names)"

definition NamedTemporaryFile ::
  "errno option \<Rightarrow> path \<Rightarrow> string list \<Rightarrow> world \<Rightarrow> (errno + fd \<times> path) \<times> world" where
  "NamedTemporaryFile fault dir names w =
     (case first_unused (nodes w) dir names of
        None \<Rightarrow> (Inl EEXIST, w)
      | Some file \<Rightarrow>
          (case os_open fault file (O_RDWR OR O_CREAT OR O_EXCL) 384 w of
             (Inl e, w1) \<Rightarrow> (Inl e, w1)
           | (Inr fh, w1) \<Rightarrow> (Inr (fh, file), w1)))"

text \<open>
  The collaborator found for a command name on the search path: none, one that cannot
  be started, or a program that maps its arguments and what it can read to an exit
  status and the bytes it writes to standard output.
\<close>

datatype collaborator =
    Missing
  | Unrunnable errno
  | Program "string list \<Rightarrow> (path \<Rightarrow> bytes option) \<Rightarrow> int \<times> bytes"

datatype run_exception = FileNotFoundError | CalledProcessError int | OtherException

text \<open>\<^verbatim>\<open>subprocess.run(command, stdout=f_out, check=True)\<close>.\<close>

definition subprocess_run ::
  "collaborator \<Rightarrow> string list \<Rightarrow> fd \<Rightarrow> world \<Rightarrow> (run_exception + unit) \<times> world" where
  "subprocess_run prog command f_out w =
     (case prog of
        Missing \<Rightarrow> (Inl FileNotFoundError, w)
      | Unrunnable e \<Rightarrow> (Inl OtherException, w)
      | Program f \<Rightarrow>
          (let (status, output) = f command (read_file w);
               w1 = os_write f_out output (log (Ev_run command f_out) w)
           in if status \<noteq> 0 then (Inl (CalledProcessError status), w1) else (Inr (), w1)))"

subsection \<open>The operations of \<^verbatim>\<open>FATS\<close>\<close>

datatype py_value = PyInt int | PyFloat real

text \<open>\<^verbatim>\<open>getattr(st, key)\<close> on an \<^verbatim>\<open>os.stat_result\<close>.\<close>

definition stat_attr :: "stat_result \<Rightarrow> string \<Rightarrow> py_value option" where
  "stat_attr st key =
     (if key = ''st_atime'' then Some (PyFloat (st_atime st))
      else if key = ''st_ctime'' then Some (PyFloat (st_ctime st))
      else if key = ''st_gid'' then Some (PyInt (st_gid st))
      else if key = ''st_mode'' then Some (PyInt (st_mode st))
      else if key = ''st_mtime'' then Some (PyFloat (st_mtime st))
      else if key = ''st_nlink'' then Some (PyInt (st_nlink st))
      else if key = ''st_size'' then Some (PyInt (st_size st))
      else if key = ''st_uid'' then Some (PyInt (st_uid st))
      else if key = ''st_dev'' then Some (PyInt (st_dev st))
      else if key = ''st_blksize'' then Some (PyInt (st_blksize st))
      else None)"

definition attr_keys :: "string list" where
  "attr_keys = [''st_atime'', ''st_ctime'', ''st_gid'', ''st_mode'', ''st_mtime'',
                ''st_nlink'', ''st_size'', ''st_uid'']"

text \<open>\<^verbatim>\<open>FATS.getattr\<close>: the dictionary has the keys of \<open>attr_keys\<close> and no other.\<close>

definition getattr ::
  "errno option \<Rightarrow> fats \<Rightarrow> world \<Rightarrow> path \<Rightarrow> fd option \<Rightarrow> error + (string \<rightharpoonup> py_value)" where
  "getattr fault self w path fh =
     (case os_lstat fault w (full_path self path) of
        Inl e \<Rightarrow> Inl (OSError e)
      | Inr st \<Rightarrow> Inr (\<lambda>key. if key \<in> set attr_keys then stat_attr st key else None))"

text \<open>
  \<^verbatim>\<open>FATS.readdir\<close>: a generator; its body runs at the first request, so it either
  raises or yields the whole list.
\<close>

definition readdir :: "errno option \<Rightarrow> fats \<Rightarrow> world \<Rightarrow> path \<Rightarrow> fd \<Rightarrow> error + string list" where
  "readdir fault self w path fh =
     (let full = full_path self path;
          dirents = [''.'', ''..'']
      in if isdir w full
         then (case os_listdir fault w full of
                 Inl e \<Rightarrow> Inl (OSError e)
               | Inr es \<Rightarrow> Inr (dirents @ es))
         else Inr dirents)"

text \<open>\<^verbatim>\<open>FATS.readlink\<close>.\<close>

definition readlink :: "errno option \<Rightarrow> fats \<Rightarrow> world \<Rightarrow> path \<Rightarrow> error + path" where
  "readlink fault self w path =
     (case os_readlink fault w (full_path self path) of
        Inl e \<Rightarrow> Inl (OSError e)
      | Inr pathname \<Rightarrow>
          if startswith_sep pathname then relpath (cwd w) pathname (root self)
          else Inr pathname)"

text \<open>
  \<^verbatim>\<open>FATS.open\<close>. The environment of one call: what \<^verbatim>\<open>tempfile\<close> draws, which
  collaborator \<^verbatim>\<open>radamsa\<close> names, and the refusals of the driver calls, in the
  order the source makes them.
\<close>

record open_env =
  tmp_dir :: path
  tmp_names :: "string list"
  tmp_fault :: "errno option"
  tmp_close_fault :: "errno option"
  out_open_fault :: "errno option"
  radamsa :: collaborator
  out_close_fault :: "errno option"
  remove_fault :: "errno option"
  open_fault :: "errno option"

text \<open>
  The body of the second \<^verbatim>\<open>try\<close>: \<^verbatim>\<open>open(temp, "wb")\<close>, the collaborator writing
  into it, and the \<^verbatim>\<open>with\<close> statement closing it on the way out, also when an
  exception passes through. A missing scratch directory is \<^verbatim>\<open>FileNotFoundError\<close>.
\<close>

definition fuzz_into ::
  "open_env \<Rightarrow> string list \<Rightarrow> path \<Rightarrow> world \<Rightarrow> (run_exception + unit) \<times> world" where
  "fuzz_into env command temp_fuzzed_path w =
     (case os_open (out_open_fault env) temp_fuzzed_path (O_WRONLY OR O_CREAT OR O_TRUNC) 438 w of
        (Inl e, w1) \<Rightarrow> (Inl (if e = ENOENT then FileNotFoundError else OtherException), w1)
      | (Inr f_out, w1) \<Rightarrow>
          (case subprocess_run (radamsa env) command f_out w1 of
             (Inl x, w2) \<Rightarrow> (Inl x, snd (os_close (out_close_fault env) f_out w2))
           | (Inr u, w2) \<Rightarrow>
               (case os_close (out_close_fault env) f_out w2 of
                  (Inl e, w3) \<Rightarrow> (Inl OtherException, w3)
                | (Inr u, w3) \<Rightarrow> (Inr (), w3))))"

text \<open>
  The body of each \<^verbatim>\<open>except\<close> clause: \<^verbatim>\<open>os.remove(temp_fuzzed_path)\<close>, then
  \<^verbatim>\<open>raise FuseOSError(errno.EIO)\<close>; an error of the removal itself escapes instead.
\<close>

definition clean_up :: "open_env \<Rightarrow> path \<Rightarrow> fats \<Rightarrow> world \<Rightarrow> (error + fd) \<times> fats \<times> world" where
  "clean_up env temp_fuzzed_path self w =
     (case os_remove (remove_fault env) temp_fuzzed_path w of
        (Inl e, w') \<Rightarrow> (Inl (OSError e), self, w')
      | (Inr u, w') \<Rightarrow> (Inl (FuseOSError EIO), self, w'))"

definition open_op :: "open_env \<Rightarrow> fats \<Rightarrow> world \<Rightarrow> path \<Rightarrow> int \<Rightarrow> (error + fd) \<times> fats \<times> world" where
  "open_op env self w path flags =
     (let full = full_path self path in
      case NamedTemporaryFile (tmp_fault env) (tmp_dir env) (tmp_names env) w of
        (Inl e, w1) \<Rightarrow> (Inl (FuseOSError EIO), self, w1)
      | (Inr (temp_fuzzed_file, temp_fuzzed_path), w1) \<Rightarrow>
          (case os_close (tmp_close_fault env) temp_fuzzed_file w1 of
             (Inl e, w2) \<Rightarrow> (Inl (FuseOSError EIO), self, w2)
           | (Inr u, w2) \<Rightarrow>
               (case fuzz_into env [''radamsa'', full] temp_fuzzed_path w2 of
                  (Inl FileNotFoundError, w3) \<Rightarrow> clean_up env temp_fuzzed_path self w3
                | (Inl (CalledProcessError status), w3) \<Rightarrow> clean_up env temp_fuzzed_path self w3
                | (Inl OtherException, w3) \<Rightarrow> clean_up env temp_fuzzed_path self w3
                | (Inr u, w3) \<Rightarrow>
                    (case os_open (open_fault env) temp_fuzzed_path flags 511 w3 of
                       (Inl e, w4) \<Rightarrow> (Inl (OSError e), self, w4)
                     | (Inr fh, w4) \<Rightarrow>
                         (Inr fh,
                          self\<lparr>temp_files := (temp_files self)(fh \<mapsto> temp_fuzzed_path)\<rparr>,
                          w4)))))"

text \<open>\<^verbatim>\<open>FATS.create\<close>; its third parameter \<^verbatim>\<open>fi\<close> is never read and is left out.\<close>

definition create :: "errno option \<Rightarrow> fats \<Rightarrow> world \<Rightarrow> path \<Rightarrow> int \<Rightarrow> (error + fd) \<times> fats \<times> world" where
  "create fault self w path mode =
     (case os_open fault (full_path self path) (O_WRONLY OR O_CREAT) mode w of
        (Inl e, w') \<Rightarrow> (Inl (OSError e), self, w')
      | (Inr fh, w') \<Rightarrow> (Inr fh, self, w'))"

text \<open>
  \<^verbatim>\<open>FATS.truncate\<close>: with a handle the source does nothing (\<^verbatim>\<open>pass\<close>); without one
  it opens the real file \<^verbatim>\<open>'r+'\<close>, truncates it and closes it.
\<close>

definition truncate ::
  "errno option \<Rightarrow> fats \<Rightarrow> world \<Rightarrow> path \<Rightarrow> int \<Rightarrow> fd option \<Rightarrow> (error + unit) \<times> fats \<times> world" where
  "truncate fault self w path len fh =
     (case fh of
        Some h \<Rightarrow> (Inr (), self, w)
      | None \<Rightarrow>
          (case os_open fault (full_path self path) O_RDWR 438 w of
             (Inl e, w1) \<Rightarrow> (Inl (OSError e), self, w1)
           | (Inr f, w1) \<Rightarrow>
               (case os_ftruncate f len w1 of
                  (Inl e, w2) \<Rightarrow> (Inl (OSError e), self, snd (os_close None f w2))
                | (Inr u, w2) \<Rightarrow>
                    (case os_close None f w2 of
                       (Inl e, w3) \<Rightarrow> (Inl (OSError e), self, w3)
                     | (Inr u, w3) \<Rightarrow> (Inr (), self, w3)))))"

text \<open>
  \<^verbatim>\<open>FATS.release\<close>: \<^verbatim>\<open>self.temp_files.pop(fh, None)\<close>, the removal inside
  \<^verbatim>\<open>try ... except OSError\<close>, then \<^verbatim>\<open>os.close(fh)\<close>. \<^verbatim>\<open>if temp_path:\<close> is false
  for a missing entry and for the empty string.
\<close>

definition release ::
  "errno option \<Rightarrow> errno option \<Rightarrow> fats \<Rightarrow> world \<Rightarrow> path \<Rightarrow> fd \<Rightarrow> (error + unit) \<times> fats \<times> world" where
  "release rm_fault close_fault self w path fh =
     (let temp_path = temp_files self fh;
          self' = self\<lparr>temp_files := (temp_files self)(fh := None)\<rparr>;
          w1 = (case temp_path of
                  None \<Rightarrow> w
                | Some p \<Rightarrow> if p = [] then w else snd (os_remove rm_fault p w))
      in case os_close close_fault fh w1 of
           (Inl e, w2) \<Rightarrow> (Inl (OSError e), self', w2)
         | (Inr u, w2) \<Rightarrow> (Inr (), self', w2))"

subsection \<open>Runs of open and release\<close>

datatype call =
    Open open_env path int
  | Release "errno option" "errno option" path fd

definition step :: "call \<Rightarrow> fats \<times> world \<Rightarrow> fats \<times> world" where
  "step c s =
     (case c of
        Open env path flags \<Rightarrow> snd (open_op env (fst s) (snd s) path flags)
      | Release rm_fault close_fault path fh \<Rightarrow>
          snd (release rm_fault close_fault (fst s) (snd s) path fh))"

fun run :: "call list \<Rightarrow> fats \<times> world \<Rightarrow> fats \<times> world" where
  "run [] s = s"
| "run (c # cs) s = run cs (step c s)"

text \<open>
  The temporary artifacts on disk are the files that were not there when the
  filesystem was mounted (\<open>w0\<close>); the referenced ones are those a live handle maps to
  in \<^verbatim>\<open>self.temp_files\<close>.
\<close>

definition artifacts :: "world \<Rightarrow> world \<Rightarrow> path set" where
  "artifacts w0 w = dom (nodes w) - dom (nodes w0)"

definition referenced :: "fats \<Rightarrow> world \<Rightarrow> path set" where
  "referenced self w = {p. \<exists>fh. fd_open w fh \<and> temp_files self fh = Some p}"

definition corresponds :: "world \<Rightarrow> fats \<times> world \<Rightarrow> bool" where
  "corresponds w0 s = (artifacts w0 (snd s) = referenced (fst s) (snd s))"

text \<open>
  A call in which no removal is refused, the handle of the new temporary file closes,
  and the driver opens the finished artifact with the requested flags.
\<close>

definition undisturbed :: "call \<Rightarrow> bool" where
  "undisturbed c =
     (case c of
        Open env path flags \<Rightarrow>
          tmp_close_fault env = None \<and> remove_fault env = None \<and> open_fault env = None
          \<and> \<not> (has_flag O_CREAT flags \<and> has_flag O_EXCL flags)
          \<and> \<not> has_flag O_DIRECTORY flags
      | Release rm_fault close_fault path fh \<Rightarrow> rm_fault = None)"

text \<open>
  What open and release maintain as long as no call is disturbed: the files of \<open>w0\<close>
  stay, every table entry belongs to an open descriptor and names a regular file that
  was not in \<open>w0\<close>, no two handles share an artifact, and every new file has an entry.
\<close>

definition consistent :: "world \<Rightarrow> fats \<times> world \<Rightarrow> bool" where
  "consistent w0 s =
     (dom (nodes w0) \<subseteq> dom (nodes (snd s))
      \<and> (\<forall>fh p. temp_files (fst s) fh = Some p \<longrightarrow>
             fd_open (snd s) fh \<and> p \<notin> dom (nodes w0) \<and> p \<noteq> []
             \<and> (\<exists>m b. nodes (snd s) p = Some (Regular m b)))
      \<and> (\<forall>fh fh' p. temp_files (fst s) fh = Some p \<and> temp_files (fst s) fh' = Some p \<longrightarrow> fh = fh')
      \<and> (\<forall>p. p \<in> dom (nodes (snd s)) \<and> p \<notin> dom (nodes w0) \<longrightarrow>
             (\<exists>fh. temp_files (fst s) fh = Some p)))"

subsection \<open>A small mounted tree\<close>

text \<open>
  The directory \<^verbatim>\<open>/data\<close> holds \<^verbatim>\<open>a.txt\<close> with content \<^verbatim>\<open>hello\<close>, a directory
  \<^verbatim>\<open>d\<close> and two links to \<^verbatim>\<open>a.txt\<close>, one absolute and one relative; the process has its three standard descriptors open. The stub
  collaborator appends \<^verbatim>\<open>!\<close> to the file named by its argument.
\<close>

definition example_meta :: inode_meta where
  "example_meta =
     \<lparr>perm = 420, nlink = 1, uid = 1000, gid = 1000, atime = 1, mtime = 2, ctime = 3,
      dev = 5, blksize = 4096\<rparr>"

definition example_world :: world where
  "example_world =
     \<lparr>nodes = [''/data'' \<mapsto> Directory example_meta [''a.txt'', ''d'', ''l'', ''r''],
               ''/data/a.txt'' \<mapsto> Regular example_meta ''hello'',
               ''/data/d'' \<mapsto> Directory example_meta [''x'', ''y''],
               ''/data/l'' \<mapsto> Symlink (example_meta\<lparr>perm := 511\<rparr>) ''/data/a.txt'',
               ''/data/r'' \<mapsto> Symlink (example_meta\<lparr>perm := 511\<rparr>) ''a.txt'',
               ''/tmp'' \<mapsto> Directory example_meta []],
      fds = [(0, ''/dev/tty''), (1, ''/dev/tty''), (2, ''/dev/tty'')],
      cwd = ''/home'',
      new_meta = example_meta,
      trace = []\<rparr>"

definition append_bang :: collaborator where
  "append_bang =
     Program (\<lambda>argv rd. case rd (last argv) of None \<Rightarrow> (1, []) | Some b \<Rightarrow> (0, b @ ''!''))"

definition example_env :: open_env where
  "example_env =
     \<lparr>tmp_dir = ''/tmp'', tmp_names = [''abcd1234''], tmp_fault = None,
      tmp_close_fault = None, out_open_fault = None, radamsa = append_bang,
      out_close_fault = None, remove_fault = None, open_fault = None\<rparr>"

definition fs :: fats where
  "fs = init ''/data''"

text \<open>The state after \<^verbatim>\<open>/a.txt\<close> has been opened, and the artifact that serves it.\<close>

definition served :: "fats \<times> world" where
  "served = snd (open_op example_env fs example_world ''/a.txt'' 0)"

definition tmp_a :: path where
  "tmp_a = ''/tmp/tmpabcd1234''"

section \<open>Properties\<close>

subsection \<open>The path mapper\<close>

lemma startswith_sep_simps [simp]:
  "startswith_sep [] = False"
  "startswith_sep (c # cs) = (c = sep)"
  by (simp_all add: startswith_sep_def)

text \<open>
  C8, as stated, fails: a virtual path that begins with two separators keeps one after
  the strip, and \<^verbatim>\<open>os.path.join\<close> then discards the root.
\<close>

theorem full_path_leaves_root:
  "full_path (init ''/data'') ''//etc/passwd'' = ''/etc/passwd''
   \<and> \<not> prefix (root (init ''/data'')) (full_path (init ''/data'') ''//etc/passwd'')"
  by (simp add: full_path_def init_def posix_join_def sep_def)

text \<open>
  C8, amended: when the virtual path does not begin with two separators, the result is
  the root, one separator (none if the root is empty or already ends with one) and the
  path without its leading separator; so the root is a prefix of the result. The
  function is total and never looks at the disk.
\<close>

theorem full_path_within_root:
  assumes "\<not> prefix [sep, sep] partial"
  shows "full_path self partial =
           (if root self = [] \<or> endswith_sep (root self) then root self else root self @ [sep])
           @ (if startswith_sep partial then drop 1 partial else partial)
         \<and> prefix (root self) (full_path self partial)"
proof -
  let ?rest = "if startswith_sep partial then drop 1 partial else partial"
  have rest: "\<not> startswith_sep ?rest"
  proof (cases partial)
    case Nil
    then show ?thesis by simp
  next
    case (Cons c cs)
    with assms show ?thesis by (cases cs) auto
  qed
  have eq: "full_path self partial =
              (if root self = [] \<or> endswith_sep (root self) then root self else root self @ [sep])
              @ ?rest"
    using rest by (simp add: full_path_def posix_join_def Let_def)
  show ?thesis
    unfolding eq by (simp add: prefix_def)
qed

theorem full_path_within_root_witness:
  "\<not> prefix [sep, sep] ''/a/b''
   \<and> full_path (init ''/data'') ''/a/b'' = ''/data/a/b''
   \<and> prefix ''/data'' (full_path (init ''/data'') ''/a/b'')"
  using full_path_within_root [of "''/a/b''" "init ''/data''"]
  by (simp add: sep_def endswith_sep_def init_def)

lemmas path_defs = full_path_def fs_def init_def posix_join_def endswith_sep_def sep_def

subsection \<open>Attributes\<close>

lemma ifmt_of_mode: "(t OR (p AND 4095)) AND S_IFMT = t AND S_IFMT" for t p :: int
proof -
  have "(p AND 4095) AND (61440::int) = p AND (4095 AND 61440)"
    by (simp only: and.assoc)
  also have "\<dots> = 0" by simp
  finally have z: "(p AND 4095) AND (61440::int) = 0" .
  show ?thesis
    by (simp add: S_IFMT_def bit.conj_disj_distrib2 z)
qed

text \<open>
  C10: \<^verbatim>\<open>getattr\<close> resolves the virtual path and calls \<^verbatim>\<open>os.lstat\<close>. When the
  resolved path is a symbolic link, the dictionary describes the link: its mode has the
  file type of a link, its size is the length of the stored target, and owner, link
  count and timestamps are those of the link's inode. Nothing in it depends on what
  the target is, or on whether it exists.
\<close>

theorem getattr_describes_link:
  assumes "nodes w (full_path self path) = Some (Symlink m t)"
  shows "\<exists>d. getattr None self w path fh = Inr d
           \<and> dom d = set attr_keys
           \<and> d ''st_mode'' = Some (PyInt (S_IFLNK OR (perm m AND 4095)))
           \<and> (S_IFLNK OR (perm m AND 4095)) AND S_IFMT = S_IFLNK
           \<and> d ''st_size'' = Some (PyInt (int (length t)))
           \<and> d ''st_atime'' = Some (PyFloat (atime m))
           \<and> d ''st_mtime'' = Some (PyFloat (mtime m))
           \<and> d ''st_ctime'' = Some (PyFloat (ctime m))
           \<and> d ''st_nlink'' = Some (PyInt (nlink m))
           \<and> d ''st_uid'' = Some (PyInt (uid m))
           \<and> d ''st_gid'' = Some (PyInt (gid m))"
proof -
  let ?st = "node_stat (Symlink m t)"
  let ?d = "\<lambda>key. if key \<in> set attr_keys then stat_attr ?st key else None"
  have g: "getattr None self w path fh = Inr ?d"
    using assms by (simp add: getattr_def os_lstat_def)
  have d: "dom ?d = set attr_keys"
    by (auto simp: attr_keys_def stat_attr_def dom_def split: if_splits)
  have m: "(S_IFLNK OR (perm m AND 4095)) AND S_IFMT = S_IFLNK"
    by (simp add: ifmt_of_mode) (simp add: S_IFLNK_def S_IFMT_def)
  have f: "?d ''st_mode'' = Some (PyInt (S_IFLNK OR (perm m AND 4095)))"
     "?d ''st_size'' = Some (PyInt (int (length t)))"
     "?d ''st_atime'' = Some (PyFloat (atime m))"
     "?d ''st_mtime'' = Some (PyFloat (mtime m))"
     "?d ''st_ctime'' = Some (PyFloat (ctime m))"
     "?d ''st_nlink'' = Some (PyInt (nlink m))"
     "?d ''st_uid'' = Some (PyInt (uid m))"
     "?d ''st_gid'' = Some (PyInt (gid m))"
    by (simp_all add: attr_keys_def stat_attr_def node_stat_def stat_of_def)
  from g d m f show ?thesis by blast
qed

text \<open>
  In the example tree \<^verbatim>\<open>/l\<close> is a link to the five-byte file \<^verbatim>\<open>/data/a.txt\<close>:
  \<^verbatim>\<open>getattr\<close> reports the link (mode \<^verbatim>\<open>0o120777\<close>, size 11, the length of the
  target's name), where the following \<^verbatim>\<open>os.stat\<close> would report size 5.
\<close>

theorem getattr_describes_link_witness:
  "nodes example_world (full_path fs ''/l'')
     = Some (Symlink (example_meta\<lparr>perm := 511\<rparr>) ''/data/a.txt'')
   \<and> (\<exists>d. getattr None fs example_world ''/l'' None = Inr d
         \<and> d ''st_mode'' = Some (PyInt 41471) \<and> d ''st_size'' = Some (PyInt 11))
   \<and> map_sum id st_size (os_stat None example_world (full_path fs ''/l'')) = Inr 5"
proof -
  have p: "full_path fs ''/l'' = ''/data/l''"
    by (simp add: path_defs)
  have n: "nodes example_world (full_path fs ''/l'')
             = Some (Symlink (example_meta\<lparr>perm := 511\<rparr>) ''/data/a.txt'')"
    unfolding p by (simp add: example_world_def)
  have s: "map_sum id st_size (os_stat None example_world (full_path fs ''/l'')) = Inr 5"
    unfolding p
    by (simp add: os_stat_def example_world_def posix_join_def dirname_def sep_def
        node_stat_def stat_of_def numeral_eq_Suc)
  from getattr_describes_link [OF n, of None] obtain d where
    "getattr None fs example_world ''/l'' None = Inr d"
    "d ''st_mode'' = Some (PyInt (S_IFLNK OR (perm (example_meta\<lparr>perm := 511\<rparr>) AND 4095)))"
    "d ''st_size'' = Some (PyInt (int (length ''/data/a.txt'')))"
    by blast
  then have "\<exists>d. getattr None fs example_world ''/l'' None = Inr d
         \<and> d ''st_mode'' = Some (PyInt 41471) \<and> d ''st_size'' = Some (PyInt 11)"
    by (simp add: S_IFLNK_def)
  with n s show ?thesis by blast
qed

subsection \<open>Directory listing\<close>

text \<open>
  C7: for a virtual path that resolves to a directory the driver can list,
  \<^verbatim>\<open>readdir\<close> yields a finite sequence: \<^verbatim>\<open>.\<close>, then \<^verbatim>\<open>..\<close>, then exactly the
  entries \<^verbatim>\<open>os.listdir\<close> returns, in its order.
\<close>

theorem readdir_self_parent_first:
  assumes "isdir w (full_path self path)"
      and "os_listdir fault w (full_path self path) = Inr es"
  shows "readdir fault self w path fh = Inr (''.'' # ''..'' # es)"
  using assms by (simp add: readdir_def)

theorem readdir_self_parent_first_witness:
  "isdir example_world (full_path fs ''/d'')
   \<and> os_listdir None example_world (full_path fs ''/d'') = Inr [''x'', ''y'']
   \<and> readdir None fs example_world ''/d'' 0 = Inr [''.'', ''..'', ''x'', ''y'']"
proof -
  have p: "full_path fs ''/d'' = ''/data/d''"
    by (simp add: path_defs)
  have i: "isdir example_world (full_path fs ''/d'')"
    unfolding p
    by (simp add: isdir_def os_stat_def example_world_def node_stat_def stat_of_def
        numeral_eq_Suc ifmt_of_mode)
       (simp add: S_IFDIR_def S_IFMT_def)
  have l: "os_listdir None example_world (full_path fs ''/d'') = Inr [''x'', ''y'']"
    unfolding p by (simp add: os_listdir_def example_world_def numeral_eq_Suc)
  from readdir_self_parent_first [OF i l, of 0] i l show ?thesis by simp
qed

subsection \<open>Symbolic links\<close>

lemma common_prefix_len_append: "common_prefix_len xs (xs @ ys) = length xs"
  by (induction xs) simp_all

lemma split_sep_no_sep: "c \<in> set (split_sep s) \<Longrightarrow> sep \<notin> set c"
proof (induction s arbitrary: c)
  case Nil
  then show ?case by simp
next
  case (Cons a s)
  then show ?case
    by (cases "split_sep s") (auto split: if_splits)
qed

lemma components_clean: "c \<in> set (components p) \<Longrightarrow> c \<noteq> [] \<and> sep \<notin> set c"
  by (auto simp: components_def dest: split_sep_no_sep)

lemma clean_not_endswith: "sep \<notin> set b \<Longrightarrow> \<not> endswith_sep b"
proof
  assume n: "sep \<notin> set b" and e: "endswith_sep b"
  from e have "b \<noteq> []" "last b = sep" by (simp_all add: endswith_sep_def)
  then have "sep \<in> set b" using last_in_set [of b] by simp
  with n show False by simp
qed

lemma foldl_posix_join:
  "a \<noteq> [] \<Longrightarrow> \<not> endswith_sep a \<Longrightarrow> \<forall>b\<in>set bs. b \<noteq> [] \<and> sep \<notin> set b \<Longrightarrow>
   foldl posix_join a bs = a @ concat (map (\<lambda>b. sep # b) bs)"
proof (induction bs arbitrary: a)
  case Nil
  then show ?case by simp
next
  case (Cons b bs)
  from Cons.prems have b: "b \<noteq> []" "sep \<notin> set b" by auto
  then have nb: "\<not> startswith_sep b" by (cases b) auto
  have j: "posix_join a b = a @ sep # b"
    using Cons.prems(1,2) nb by (simp add: posix_join_def)
  have e: "\<not> endswith_sep (a @ sep # b)"
    using b clean_not_endswith [of b] by (simp add: endswith_sep_def)
  have "foldl posix_join (a @ sep # b) bs = (a @ sep # b) @ concat (map (\<lambda>b. sep # b) bs)"
    using Cons.prems(3) e by (intro Cons.IH) auto
  then show ?case by (simp add: j)
qed

lemma sep_join_concat: "sep_join (c # cs) = c @ concat (map (\<lambda>b. sep # b) cs)"
  by (induction cs arbitrary: c) simp_all

lemma join_list_sep_join:
  assumes "\<forall>b\<in>set xs. b \<noteq> [] \<and> sep \<notin> set b"
  shows "join_list xs = sep_join xs"
proof (cases xs)
  case Nil
  then show ?thesis by (simp add: join_list_def)
next
  case (Cons a p)
  with assms have "a \<noteq> []" "\<not> endswith_sep a" "\<forall>b\<in>set p. b \<noteq> [] \<and> sep \<notin> set b"
    by (simp_all add: clean_not_endswith)
  then show ?thesis
    by (simp add: Cons join_list_def foldl_posix_join sep_join_concat)
qed

text \<open>
  C6: let \<open>t\<close> be the stored target of the link. If \<open>t\<close> is absolute and lies inside
  the root, that is, the components of its absolute normal form are those of the root
  followed by \<open>rest\<close>, then \<^verbatim>\<open>readlink\<close> returns \<open>rest\<close> joined by separators (a path
  relative to the root; \<^verbatim>\<open>.\<close> when the target is the root itself). If \<open>t\<close> is
  relative, \<^verbatim>\<open>readlink\<close> returns \<open>t\<close> unchanged.
\<close>

theorem readlink_relative_to_root:
  assumes "os_readlink fault w (full_path self path) = Inr t"
  shows "(startswith_sep t
            \<and> components (abspath (cwd w) t) = components (abspath (cwd w) (root self)) @ rest
          \<longrightarrow> readlink fault self w path = Inr (if rest = [] then ''.'' else sep_join rest))
         \<and> (\<not> startswith_sep t \<longrightarrow> readlink fault self w path = Inr t)"
proof (intro conjI impI)
  assume a: "startswith_sep t
     \<and> components (abspath (cwd w) t) = components (abspath (cwd w) (root self)) @ rest"
  then have ne: "t \<noteq> []" by auto
  have clean: "\<forall>b\<in>set rest. b \<noteq> [] \<and> sep \<notin> set b"
  proof
    fix b assume "b \<in> set rest"
    with a have "b \<in> set (components (abspath (cwd w) t))" by simp
    then show "b \<noteq> [] \<and> sep \<notin> set b" by (rule components_clean)
  qed
  have "relpath (cwd w) t (root self) = Inr (if rest = [] then ''.'' else join_list rest)"
    using a ne by (simp add: relpath_def Let_def common_prefix_len_append)
  also have "\<dots> = Inr (if rest = [] then ''.'' else sep_join rest)"
    using clean by (simp add: join_list_sep_join)
  finally show "readlink fault self w path = Inr (if rest = [] then ''.'' else sep_join rest)"
    using assms a by (simp add: readlink_def)
next
  assume "\<not> startswith_sep t"
  with assms show "readlink fault self w path = Inr t"
    by (simp add: readlink_def)
qed

text \<open>
  In the example tree \<^verbatim>\<open>/l\<close> stores the absolute target \<^verbatim>\<open>/data/a.txt\<close>, read back
  as \<^verbatim>\<open>a.txt\<close>; \<^verbatim>\<open>/r\<close> stores the relative target \<^verbatim>\<open>a.txt\<close>, read back as it is.
\<close>

theorem readlink_relative_to_root_witness:
  "os_readlink None example_world (full_path fs ''/l'') = Inr ''/data/a.txt''
   \<and> startswith_sep ''/data/a.txt''
   \<and> components (abspath (cwd example_world) ''/data/a.txt'')
       = components (abspath (cwd example_world) (root fs)) @ [''a.txt'']
   \<and> readlink None fs example_world ''/l'' = Inr ''a.txt''
   \<and> os_readlink None example_world (full_path fs ''/r'') = Inr ''a.txt''
   \<and> \<not> startswith_sep ''a.txt''
   \<and> readlink None fs example_world ''/r'' = Inr ''a.txt''"
proof -
  have p: "full_path fs ''/l'' = ''/data/l''" "full_path fs ''/r'' = ''/data/r''"
    by (simp_all add: path_defs)
  have r: "os_readlink None example_world (full_path fs ''/l'') = Inr ''/data/a.txt''"
    unfolding p by (simp add: os_readlink_def example_world_def)
  have c: "components (abspath (cwd example_world) ''/data/a.txt'')
       = components (abspath (cwd example_world) (root fs)) @ [''a.txt'']"
    by (simp add: components_def abspath_def normpath_def initial_slashes_def norm_step_def
        example_world_def path_defs)
  have s: "startswith_sep ''/data/a.txt''" by (simp add: sep_def)
  from readlink_relative_to_root [OF r, of "[''a.txt'']"] s c
  have a: "readlink None fs example_world ''/l'' = Inr ''a.txt''" by simp
  have r': "os_readlink None example_world (full_path fs ''/r'') = Inr ''a.txt''"
    unfolding p by (simp add: os_readlink_def example_world_def)
  have s': "\<not> startswith_sep ''a.txt''" by (simp add: sep_def)
  from readlink_relative_to_root [OF r'] s'
  have b: "readlink None fs example_world ''/r'' = Inr ''a.txt''" by simp
  from r s c a r' s' b show ?thesis by blast
qed

subsection \<open>Driver calls\<close>

lemmas flag_defs = has_flag_def O_WRONLY_def O_RDWR_def O_CREAT_def O_EXCL_def O_TRUNC_def
  O_DIRECTORY_def

lemmas os_defs = os_open_def os_close_def os_remove_def os_write_def log_def fd_open_def
  fresh_fd_def flag_defs NamedTemporaryFile_def subprocess_run_def read_file_def
  os_ftruncate_def

lemmas example_defs = example_world_def example_env_def example_meta_def append_bang_def

lemmas eval_defs = open_op_def fuzz_into_def clean_up_def release_def truncate_def create_def
  os_defs example_defs path_defs numeral_eq_Suc Let_def

lemma triple: "x = (fst x, fst (snd x), snd (snd x))"
  by simp

lemma lowest_free_fresh:
  "{0..<n} \<subseteq> set used \<Longrightarrow> card (set used) \<le> n + k \<Longrightarrow> lowest_free k used n \<notin> set used"
proof (induction k arbitrary: n)
  case 0
  have "card {0..<n} = n" by simp
  with 0 have "card (set used) \<le> card {0..<n}" by simp
  with 0(1) have "{0..<n} = set used"
    by (intro card_seteq) auto
  then have "n \<notin> set used" by auto
  then show ?case by simp
next
  case (Suc k)
  show ?case
  proof (cases "n \<in> set used")
    case True
    with Suc.prems have "{0..<Suc n} \<subseteq> set used" "card (set used) \<le> Suc n + k"
      by (auto simp: atLeast0_lessThan_Suc)
    then have "lowest_free k used (Suc n) \<notin> set used" by (rule Suc.IH)
    with True show ?thesis by simp
  next
    case False
    then show ?thesis by simp
  qed
qed

lemma fresh_fd_not_open: "\<not> fd_open w (fresh_fd w)"
proof -
  have "card (set (map fst (fds w))) \<le> 0 + length (fds w)"
    using card_length [of "map fst (fds w)"] by simp
  then have "lowest_free (length (fds w)) (map fst (fds w)) 0 \<notin> set (map fst (fds w))"
    by (intro lowest_free_fresh) simp_all
  then show ?thesis by (simp add: fd_open_def fresh_fd_def)
qed

lemma fresh_fd_cong: "fds w' = fds w \<Longrightarrow> fresh_fd w' = fresh_fd w"
  by (simp add: fresh_fd_def)

lemma follow_not_link: "(\<And>m t. ns p \<noteq> Some (Symlink m t)) \<Longrightarrow> follow (Suc k) ns p = Inr p"
  by (auto split: option.splits node.splits)

lemma follow_40: "(\<And>m t. ns p \<noteq> Some (Symlink m t)) \<Longrightarrow> follow 40 ns p = Inr p"
  using follow_not_link [of ns p 39] by simp

lemma os_open_trace:
  "os_open fault p flags mode w = (r, w') \<Longrightarrow> trace w' = trace w @ [Ev_open p flags mode]"
  by (auto simp: os_open_def log_def Let_def split: option.splits sum.splits node.splits if_splits)

lemma os_open_existing:
  "os_open fault p flags mode w = (r, w') \<Longrightarrow> nodes w q \<noteq> None \<Longrightarrow>
   \<not> has_flag O_TRUNC flags \<Longrightarrow> nodes w' q = nodes w q"
  by (auto simp: os_open_def log_def Let_def split: option.splits sum.splits node.splits if_splits)

lemma os_open_new:
  assumes "nodes w p = None" "has_flag O_CREAT flags"
  shows "os_open None p flags mode w =
     (Inr (fresh_fd w),
      w\<lparr>trace := trace w @ [Ev_open p flags mode],
        nodes := (nodes w)(p \<mapsto> Regular ((new_meta w)\<lparr>perm := mode AND 4095\<rparr>) []),
        fds := (fresh_fd w, p) # fds w\<rparr>)"
proof -
  have "follow 40 (nodes w) p = Inr p" using assms(1) by (intro follow_40) simp
  with assms show ?thesis
    by (simp add: os_open_def log_def Let_def)
qed

lemma os_open_regular:
  assumes "nodes w p = Some (Regular m b)"
  shows "os_open None p flags mode w =
     (if has_flag O_CREAT flags \<and> has_flag O_EXCL flags then (Inl EEXIST, log (Ev_open p flags mode) w)
      else if has_flag O_DIRECTORY flags then (Inl ENOTDIR, log (Ev_open p flags mode) w)
      else (Inr (fresh_fd w),
            w\<lparr>trace := trace w @ [Ev_open p flags mode],
              nodes := (nodes w)(p \<mapsto> Regular m (if has_flag O_TRUNC flags then [] else b)),
              fds := (fresh_fd w, p) # fds w\<rparr>))"
proof -
  have "follow 40 (nodes w) p = Inr p" using assms(1) by (intro follow_40) simp
  with assms show ?thesis
    by (auto simp: os_open_def log_def Let_def fun_upd_idem)
qed

lemma os_close_effect:
  "os_close fault fh w = (r, w') \<Longrightarrow>
     trace w' = trace w @ [Ev_close fh] \<and> nodes w' = nodes w
     \<and> fds w' = filter (\<lambda>e. fst e \<noteq> fh) (fds w) \<and> \<not> fd_open w' fh
     \<and> r = (if fd_open w fh then (case fault of Some e \<Rightarrow> Inl e | None \<Rightarrow> Inr ()) else Inl EBADF)"
proof -
  have idem: "\<not> fd_open w fh \<Longrightarrow> filter (\<lambda>e. fst e \<noteq> fh) (fds w) = fds w"
    by (auto simp: fd_open_def filter_id_conv)
  assume "os_close fault fh w = (r, w')"
  then show ?thesis
    using idem by (auto simp: os_close_def log_def fd_open_def Let_def split: if_splits)
qed

lemma os_close_just_opened:
  assumes "fds w1 = (fh, q) # fds w" "\<not> fd_open w fh" "os_close fault fh w1 = (r, w2)"
  shows "fds w2 = fds w \<and> nodes w2 = nodes w1 \<and> (fault = None \<longrightarrow> r = Inr ())"
proof -
  have "filter (\<lambda>e. fst e \<noteq> fh) (fds w) = fds w"
    using assms(2) by (auto simp: fd_open_def filter_id_conv)
  with os_close_effect [OF assms(3)] assms(1) show ?thesis
    by (simp add: fd_open_def)
qed

lemma os_remove_effect:
  "os_remove fault p w = (r, w') \<Longrightarrow>
     trace w' = trace w @ [Ev_remove p] \<and> fds w' = fds w
     \<and> (\<forall>q. q \<noteq> p \<longrightarrow> nodes w' q = nodes w q)"
  by (auto simp: os_remove_def log_def Let_def split: option.splits node.splits)

lemma os_remove_regular:
  "nodes w p = Some (Regular m b) \<Longrightarrow>
   os_remove None p w = (Inr (), w\<lparr>trace := trace w @ [Ev_remove p], nodes := (nodes w)(p := None)\<rparr>)"
  by (simp add: os_remove_def log_def)

lemma served_facts:
  "fst (open_op example_env fs example_world ''/a.txt'' 0) = Inr 3"
  "temp_files (fst served) 3 = Some tmp_a"
  "nodes (snd served) tmp_a = Some (Regular (example_meta\<lparr>perm := 384\<rparr>) ''hello!'')"
  "fd_open (snd served) 3"
  "nodes (snd served) ''/data/a.txt'' = Some (Regular example_meta ''hello'')"
  by (simp_all add: served_def tmp_a_def eval_defs)

subsection \<open>Creation\<close>

text \<open>
  C9: \<^verbatim>\<open>create\<close> makes one driver call, \<^verbatim>\<open>os.open\<close> of the resolved path with
  \<^verbatim>\<open>O_WRONLY | O_CREAT\<close> and the given mode: no collaborator runs, no temporary
  file appears, files that exist keep their content, and \<^verbatim>\<open>self.temp_files\<close> is
  unchanged. When the resolved path is free and the driver does not refuse, the call
  returns a new descriptor for a new, empty regular file at that path whose permission
  bits are those of the mode.
\<close>

theorem create_not_fuzzed:
  assumes "create fault self w path mode = (r, self', w')"
  shows "self' = self
     \<and> trace w' = trace w @ [Ev_open (full_path self path) (O_WRONLY OR O_CREAT) mode]
     \<and> (\<forall>p. nodes w p \<noteq> None \<longrightarrow> nodes w' p = nodes w p)
     \<and> (nodes w (full_path self path) = None \<and> fault = None \<longrightarrow>
          r = Inr (fresh_fd w) \<and> \<not> fd_open w (fresh_fd w) \<and> fd_open w' (fresh_fd w)
          \<and> nodes w' = (nodes w)(full_path self path \<mapsto>
                          Regular ((new_meta w)\<lparr>perm := mode AND 4095\<rparr>) []))"
proof -
  obtain r0 where o: "os_open fault (full_path self path) (O_WRONLY OR O_CREAT) mode w = (r0, w')"
    and s: "self' = self"
    and r: "r = (case r0 of Inl e \<Rightarrow> Inl (OSError e) | Inr fh \<Rightarrow> Inr fh)"
    using assms by (auto simp: create_def split: prod.splits sum.splits)
  have nt: "\<not> has_flag O_TRUNC (O_WRONLY OR O_CREAT)" and cr: "has_flag O_CREAT (O_WRONLY OR O_CREAT)"
    by (simp_all add: flag_defs)
  have t: "trace w' = trace w @ [Ev_open (full_path self path) (O_WRONLY OR O_CREAT) mode]"
    using o by (rule os_open_trace)
  have e: "\<forall>p. nodes w p \<noteq> None \<longrightarrow> nodes w' p = nodes w p"
    using os_open_existing [OF o _ nt] by blast
  have n: "r = Inr (fresh_fd w) \<and> \<not> fd_open w (fresh_fd w) \<and> fd_open w' (fresh_fd w)
          \<and> nodes w' = (nodes w)(full_path self path \<mapsto>
                          Regular ((new_meta w)\<lparr>perm := mode AND 4095\<rparr>) [])"
    if "nodes w (full_path self path) = None" "fault = None"
    using o r that fresh_fd_not_open [of w]
    by (auto simp: os_open_new [OF that(1) cr] fd_open_def)
  from s t e n show ?thesis by blast
qed

text \<open>
  Creating \<^verbatim>\<open>/new.txt\<close> with mode \<^verbatim>\<open>0o644\<close> in the example tree: descriptor 3, an
  empty file at \<^verbatim>\<open>/data/new.txt\<close>, and a single driver call.
\<close>

theorem create_not_fuzzed_witness:
  "nodes example_world (full_path fs ''/new.txt'') = None
   \<and> fst (create None fs example_world ''/new.txt'' 420) = Inr 3
   \<and> fst (snd (create None fs example_world ''/new.txt'' 420)) = fs
   \<and> trace (snd (snd (create None fs example_world ''/new.txt'' 420)))
       = [Ev_open ''/data/new.txt'' 65 420]
   \<and> nodes (snd (snd (create None fs example_world ''/new.txt'' 420)))
       = (nodes example_world)(''/data/new.txt'' \<mapsto> Regular example_meta [])"
proof -
  have p: "full_path fs ''/new.txt'' = ''/data/new.txt''"
    by (simp add: path_defs)
  have n: "nodes example_world (full_path fs ''/new.txt'') = None"
    unfolding p by (simp add: example_world_def)
  have f: "fresh_fd example_world = 3"
    by (simp add: fresh_fd_def example_world_def numeral_eq_Suc)
  have m: "(new_meta example_world)\<lparr>perm := 420\<rparr> = example_meta"
    by (simp add: example_world_def example_meta_def)
  have t: "trace example_world = []" by (simp add: example_world_def)
  have o: "O_WRONLY OR O_CREAT = 65" by (simp add: flag_defs)
  from create_not_fuzzed [OF triple, of None fs example_world "''/new.txt''" 420] n
  show ?thesis by (simp add: p f m t o)
qed

subsection \<open>Release\<close>


text \<open>
  C3: \<^verbatim>\<open>release\<close> removes the entry of the handle from \<^verbatim>\<open>self.temp_files\<close> as part
  of the lookup. If there was an entry, \<^verbatim>\<open>os.remove\<close> is called on its path, and the
  artifact is gone when the driver does not refuse; a refusal changes neither the
  result nor what follows. The last driver call is always \<^verbatim>\<open>os.close\<close> of the
  handle, entry or not, after which the descriptor is closed; the result is that of
  the close alone.
\<close>

theorem release_closes_and_cleans:
  assumes "release rm_fault close_fault self w path fh = (r, self', w')"
  shows "temp_files self' = (temp_files self)(fh := None) \<and> root self' = root self
     \<and> \<not> fd_open w' fh
     \<and> (fd_open w fh \<and> close_fault = None \<longrightarrow> r = Inr ())
     \<and> (\<forall>p. temp_files self fh = Some p \<and> p \<noteq> [] \<longrightarrow>
            trace w' = trace w @ [Ev_remove p, Ev_close fh]
            \<and> (rm_fault = None \<and> (\<exists>m b. nodes w p = Some (Regular m b)) \<longrightarrow> nodes w' p = None))
     \<and> (temp_files self fh = None \<longrightarrow>
            trace w' = trace w @ [Ev_close fh] \<and> nodes w' = nodes w)"
proof -
  define w1 where "w1 = (case temp_files self fh of
                  None \<Rightarrow> w
                | Some p \<Rightarrow> if p = [] then w else snd (os_remove rm_fault p w))"
  obtain r0 where c: "os_close close_fault fh w1 = (r0, w')"
    and s: "self' = self\<lparr>temp_files := (temp_files self)(fh := None)\<rparr>"
    and r: "r = (case r0 of Inl e \<Rightarrow> Inl (OSError e) | Inr u \<Rightarrow> Inr ())"
    using assms by (auto simp: release_def w1_def Let_def split: prod.splits sum.splits)
  note ce = os_close_effect [OF c]
  have f1: "fds w1 = fds w"
    using os_remove_effect [OF surjective_pairing]
    by (auto simp: w1_def split: option.splits)
  then have o1: "fd_open w1 fh = fd_open w fh" by (simp add: fd_open_def)
  have a: "temp_files self' = (temp_files self)(fh := None) \<and> root self' = root self"
    using s by simp
  have b: "\<not> fd_open w' fh" using ce by simp
  have d: "fd_open w fh \<and> close_fault = None \<longrightarrow> r = Inr ()"
    using ce r o1 by simp
  have e: "trace w' = trace w @ [Ev_remove p, Ev_close fh]
            \<and> (rm_fault = None \<and> (\<exists>m b. nodes w p = Some (Regular m b)) \<longrightarrow> nodes w' p = None)"
    if "temp_files self fh = Some p" "p \<noteq> []" for p
  proof -
    from that have w1: "w1 = snd (os_remove rm_fault p w)" by (simp add: w1_def)
    have "trace w1 = trace w @ [Ev_remove p]"
      unfolding w1 using os_remove_effect [OF surjective_pairing] by blast
    moreover have "nodes w1 p = None" if "rm_fault = None" "nodes w p = Some (Regular m b)" for m b
      unfolding w1 using that by (simp add: os_remove_regular)
    ultimately show ?thesis using ce by auto
  qed
  have g: "trace w' = trace w @ [Ev_close fh] \<and> nodes w' = nodes w"
    if "temp_files self fh = None"
    using that ce by (simp add: w1_def)
  from a b d e g show ?thesis by blast
qed

text \<open>
  Releasing handle 3 of the served state: with a willing driver the artifact is gone;
  with a refused removal the call still succeeds and the descriptor is closed. Releasing
  a handle without an entry (7) leaves the disk alone and still closes.
\<close>

theorem release_closes_and_cleans_witness:
  "temp_files (fst served) 3 = Some tmp_a \<and> tmp_a \<noteq> [] \<and> fd_open (snd served) 3
   \<and> (\<exists>m b. nodes (snd served) tmp_a = Some (Regular m b))
   \<and> fst (release None None (fst served) (snd served) ''/a.txt'' 3) = Inr ()
   \<and> temp_files (fst (snd (release None None (fst served) (snd served) ''/a.txt'' 3))) 3 = None
   \<and> nodes (snd (snd (release None None (fst served) (snd served) ''/a.txt'' 3))) tmp_a = None
   \<and> \<not> fd_open (snd (snd (release None None (fst served) (snd served) ''/a.txt'' 3))) 3
   \<and> fst (release (Some EACCES) None (fst served) (snd served) ''/a.txt'' 3) = Inr ()
   \<and> \<not> fd_open (snd (snd (release (Some EACCES) None (fst served) (snd served) ''/a.txt'' 3))) 3
   \<and> temp_files fs 7 = None
   \<and> nodes (snd (snd (release None None fs example_world ''/a.txt'' 7))) = nodes example_world
   \<and> \<not> fd_open (snd (snd (release None None fs example_world ''/a.txt'' 7))) 7"
proof -
  have t: "tmp_a \<noteq> []" by (simp add: tmp_a_def)
  have n: "temp_files fs 7 = None" by (simp add: fs_def init_def)
  note a = release_closes_and_cleans
    [OF triple, of None None "fst served" "snd served" "''/a.txt''" 3]
  note b = release_closes_and_cleans
    [OF triple, of "Some EACCES" None "fst served" "snd served" "''/a.txt''" 3]
  note c = release_closes_and_cleans
    [OF triple, of None None fs example_world "''/a.txt''" 7]
  from a b c t n served_facts(2,3,4) show ?thesis by simp
qed



subsection \<open>Truncation\<close>

lemma truncate_with_handle: "truncate fault self w path len (Some h) = (Inr (), self, w)"
  by (simp add: truncate_def)

lemma truncate_path_only:
  assumes n: "nodes w (full_path self path) = Some (Regular m b)" and l: "0 \<le> len"
  shows "\<exists>w'. truncate None self w path len None = (Inr (), self, w')
           \<and> nodes w' = (nodes w)(full_path self path \<mapsto>
                 Regular m (take (nat len) b @ replicate (nat len - length b) (CHR 0x00)))
           \<and> fds w' = fds w"
proof -
  let ?p = "full_path self path"
  let ?f = "fresh_fd w"
  have fl: "\<not> (has_flag O_CREAT O_RDWR \<and> has_flag O_EXCL O_RDWR)" "\<not> has_flag O_DIRECTORY O_RDWR"
    "\<not> has_flag O_TRUNC O_RDWR"
    by (simp_all add: flag_defs)
  obtain w1 where o: "os_open None ?p O_RDWR 438 w = (Inr ?f, w1)"
    and n1: "nodes w1 = nodes w" and f1: "fds w1 = (?f, ?p) # fds w"
    using fl n by (simp add: os_open_regular [OF n] map_upd_triv)
  obtain w2 where t: "os_ftruncate ?f len w1 = (Inr (), w2)"
    and n2: "nodes w2 = (nodes w)(?p \<mapsto>
                 Regular m (take (nat len) b @ replicate (nat len - length b) (CHR 0x00)))"
    and f2: "fds w2 = (?f, ?p) # fds w"
    using l n by (simp add: os_ftruncate_def f1 n1 log_def)
  obtain r3 w3 where c: "os_close None ?f w2 = (r3, w3)"
    by (cases "os_close None ?f w2")
  from os_close_just_opened [OF f2 fresh_fd_not_open c]
  have 3: "fds w3 = fds w" "nodes w3 = nodes w2" "r3 = Inr ()" by simp_all
  have "truncate None self w path len None = (Inr (), self, w3)"
    using o t c 3 by (simp add: truncate_def)
  with 3 n2 show ?thesis by simp
qed

text \<open>
  C5 does not hold of the code: with a handle, \<^verbatim>\<open>truncate\<close> does nothing. In the
  served state handle 3 is bound to the artifact, whose content is \<^verbatim>\<open>hello!\<close>;
  truncating to length 0 through the handle succeeds and leaves state and disk as they
  were, the artifact still six bytes long. (Without a handle the real file is cut or
  padded to the length, \<open>truncate_path_only\<close>.)
\<close>

theorem truncate_with_handle_leaves_artifact:
  "temp_files (fst served) 3 = Some ''/tmp/tmpabcd1234''
   \<and> nodes (snd served) ''/tmp/tmpabcd1234''
       = Some (Regular (example_meta\<lparr>perm := 384\<rparr>) ''hello!'')
   \<and> truncate None (fst served) (snd served) ''/a.txt'' 0 (Some 3)
       = (Inr (), fst served, snd served)"
  using served_facts(2,3) by (simp add: truncate_def tmp_a_def)

subsection \<open>Open\<close>

lemma posix_join_nonempty: "b \<noteq> [] \<Longrightarrow> posix_join a b \<noteq> []"
  by (simp add: posix_join_def)

lemma first_unused_Some: "first_unused ns dir names = Some f \<Longrightarrow> ns f = None \<and> f \<noteq> []"
proof (induction names)
  case Nil
  then show ?case by simp
next
  case (Cons n names)
  then show ?case
    by (auto simp: Let_def posix_join_nonempty split: if_splits)
qed

lemma NamedTemporaryFile_result:
  assumes "NamedTemporaryFile fault dir names w = (r, w1)"
  shows "(\<exists>e. r = Inl e \<and> nodes w1 = nodes w \<and> fds w1 = fds w)
       \<or> (\<exists>tmp m. r = Inr (fresh_fd w, tmp) \<and> nodes w tmp = None \<and> tmp \<noteq> []
             \<and> nodes w1 = (nodes w)(tmp \<mapsto> Regular m [])
             \<and> fds w1 = (fresh_fd w, tmp) # fds w)"
proof (cases "first_unused (nodes w) dir names")
  case None
  with assms show ?thesis by (auto simp: NamedTemporaryFile_def)
next
  case (Some tmp)
  then have f: "nodes w tmp = None" "tmp \<noteq> []" using first_unused_Some by blast+
  have cr: "has_flag O_CREAT (O_RDWR OR O_CREAT OR O_EXCL)" by (simp add: flag_defs)
  show ?thesis
  proof (cases fault)
    case None
    with assms Some f show ?thesis
      by (auto simp: NamedTemporaryFile_def os_open_new [OF f(1) cr])
  next
    case (Some e)
    with assms \<open>first_unused (nodes w) dir names = Some tmp\<close> show ?thesis
      by (auto simp: NamedTemporaryFile_def os_open_def log_def Let_def)
  qed
qed

lemma same_content:
  "nodes w tmp = Some (Regular m b) \<Longrightarrow> \<exists>b'. nodes w = (nodes w)(tmp \<mapsto> Regular m b')"
  by (rule exI [of _ b]) (simp add: map_upd_triv)

lemma subprocess_run_result:
  assumes "fds w1 = (f, tmp) # rest" "nodes w1 tmp = Some (Regular m b)"
      and "subprocess_run prog cmd f w1 = (r, w2)"
  shows "fds w2 = fds w1 \<and> (\<exists>b'. nodes w2 = (nodes w1)(tmp \<mapsto> Regular m b'))"
proof (cases prog)
  case Missing
  with assms same_content [OF assms(2)] show ?thesis by (auto simp: subprocess_run_def)
next
  case (Unrunnable e)
  with assms same_content [OF assms(2)] show ?thesis by (auto simp: subprocess_run_def)
next
  case (Program g)
  with assms show ?thesis
    by (auto simp: subprocess_run_def os_write_def log_def Let_def split: prod.splits if_splits)
qed

text \<open>
  Whatever happens inside the second \<^verbatim>\<open>try\<close>, the temporary file is still a regular
  file afterwards and no descriptor is left open.
\<close>

lemma fuzz_into_result:
  assumes n: "nodes w tmp = Some (Regular m b)"
      and f: "fuzz_into env cmd tmp w = (r, w')"
  shows "fds w' = fds w \<and> (\<exists>b'. nodes w' = (nodes w)(tmp \<mapsto> Regular m b'))"
proof (cases "out_open_fault env")
  case (Some e)
  with f have "nodes w' = nodes w" "fds w' = fds w"
    by (auto simp: fuzz_into_def os_open_def log_def Let_def)
  with same_content [OF n] show ?thesis by simp
next
  case None
  let ?fl = "O_WRONLY OR O_CREAT OR O_TRUNC"
  let ?f = "fresh_fd w"
  have fl: "\<not> (has_flag O_CREAT ?fl \<and> has_flag O_EXCL ?fl)" "\<not> has_flag O_DIRECTORY ?fl"
    "has_flag O_TRUNC ?fl"
    by (simp_all add: flag_defs)
  obtain w1 where o: "os_open None tmp ?fl 438 w = (Inr ?f, w1)"
    and n1: "nodes w1 = (nodes w)(tmp \<mapsto> Regular m [])"
    and f1: "fds w1 = (?f, tmp) # fds w"
    using fl by (simp add: os_open_regular [OF n])
  obtain r2 w2 where s: "subprocess_run (radamsa env) cmd ?f w1 = (r2, w2)"
    by (cases "subprocess_run (radamsa env) cmd ?f w1")
  have n1': "nodes w1 tmp = Some (Regular m [])" by (simp add: n1)
  from subprocess_run_result [OF f1 n1' s] obtain b' where
    f2: "fds w2 = (?f, tmp) # fds w" and n2: "nodes w2 = (nodes w)(tmp \<mapsto> Regular m b')"
    by (auto simp: n1 f1)
  obtain r3 w3 where c: "os_close (out_close_fault env) ?f w2 = (r3, w3)"
    by (cases "os_close (out_close_fault env) ?f w2")
  from os_close_just_opened [OF f2 fresh_fd_not_open c]
  have 3: "fds w3 = fds w" "nodes w3 = nodes w2" by simp_all
  have "w' = w3"
    using f None o s c by (auto simp: fuzz_into_def split: sum.splits)
  with 3 n2 show ?thesis by auto
qed

lemma clean_up_regular:
  assumes "remove_fault env = None" "nodes w tmp = Some (Regular m b)"
      and "clean_up env tmp self w = (r, self', w')"
  shows "self' = self \<and> fds w' = fds w \<and> nodes w' = (nodes w)(tmp := None)"
  using assms by (auto simp: clean_up_def os_remove_regular)

text \<open>
  An undisturbed open either fails and leaves disk, descriptors and table as they were
  (every \<^verbatim>\<open>except\<close> clause of the second \<^verbatim>\<open>try\<close> removes the temporary file), or
  returns the lowest free descriptor, bound in the table to a new regular file.
\<close>

lemma open_op_undisturbed:
  assumes u: "undisturbed (Open env path flags)"
      and o: "open_op env self w path flags = (r, self', w')"
  shows "(self' = self \<and> nodes w' = nodes w \<and> fds w' = fds w)
       \<or> (\<exists>tmp m b. nodes w tmp = None \<and> tmp \<noteq> []
             \<and> self' = self\<lparr>temp_files := (temp_files self)(fresh_fd w \<mapsto> tmp)\<rparr>
             \<and> nodes w' = (nodes w)(tmp \<mapsto> Regular m b)
             \<and> fds w' = (fresh_fd w, tmp) # fds w)"
proof -
  from u have u1: "tmp_close_fault env = None" and u2: "remove_fault env = None"
    and u3: "open_fault env = None"
    and u4: "\<not> (has_flag O_CREAT flags \<and> has_flag O_EXCL flags)"
    and u5: "\<not> has_flag O_DIRECTORY flags"
    by (simp_all add: undisturbed_def)
  obtain r1 w1 where t: "NamedTemporaryFile (tmp_fault env) (tmp_dir env) (tmp_names env) w = (r1, w1)"
    by (cases "NamedTemporaryFile (tmp_fault env) (tmp_dir env) (tmp_names env) w")
  from NamedTemporaryFile_result [OF t] show ?thesis
  proof (elim disjE exE conjE)
    fix e assume "r1 = Inl e" "nodes w1 = nodes w" "fds w1 = fds w"
    with o t show ?thesis by (simp add: open_op_def)
  next
    fix tmp m
    assume r1: "r1 = Inr (fresh_fd w, tmp)" and fr: "nodes w tmp = None" and ne: "tmp \<noteq> []"
      and n1: "nodes w1 = (nodes w)(tmp \<mapsto> Regular m [])"
      and f1: "fds w1 = (fresh_fd w, tmp) # fds w"
    obtain r2 w2 where c: "os_close (tmp_close_fault env) (fresh_fd w) w1 = (r2, w2)"
      by (cases "os_close (tmp_close_fault env) (fresh_fd w) w1")
    from os_close_just_opened [OF f1 fresh_fd_not_open c] u1
    have f2: "fds w2 = fds w" and n2: "nodes w2 = (nodes w)(tmp \<mapsto> Regular m [])"
      and r2: "r2 = Inr ()"
      by (simp_all add: n1)
    obtain r3 w3 where z: "fuzz_into env [''radamsa'', full_path self path] tmp w2 = (r3, w3)"
      by (cases "fuzz_into env [''radamsa'', full_path self path] tmp w2")
    have n2': "nodes w2 tmp = Some (Regular m [])" by (simp add: n2)
    from fuzz_into_result [OF n2' z] obtain b' where
      f3: "fds w3 = fds w" and n3: "nodes w3 = (nodes w)(tmp \<mapsto> Regular m b')"
      by (auto simp: f2 n2)
    have n3': "nodes w3 tmp = Some (Regular m b')" by (simp add: n3)
    show ?thesis
    proof (cases r3)
      case (Inl x)
      obtain r4 s4 w4 where k: "clean_up env tmp self w3 = (r4, s4, w4)"
        by (rule prod_cases3)
      from clean_up_regular [OF u2 n3' k] fr
      have 4: "s4 = self" "fds w4 = fds w" "nodes w4 = nodes w"
        by (simp_all add: f3 n3 fun_upd_idem)
      have "(r, self', w') = (r4, s4, w4)"
        using o t r1 c r2 z Inl k by (cases x) (simp_all add: open_op_def)
      with 4 show ?thesis by simp
    next
      case (Inr v)
      have fo: "os_open None tmp flags 511 w3 =
                 (Inr (fresh_fd w),
                  w3\<lparr>trace := trace w3 @ [Ev_open tmp flags 511],
                     nodes := (nodes w3)(tmp \<mapsto> Regular m (if has_flag O_TRUNC flags then [] else b')),
                     fds := (fresh_fd w, tmp) # fds w\<rparr>)"
        using u4 u5 by (simp add: os_open_regular [OF n3'] fresh_fd_cong [OF f3] f3)
      have "self' = self\<lparr>temp_files := (temp_files self)(fresh_fd w \<mapsto> tmp)\<rparr>
            \<and> nodes w' = (nodes w)(tmp \<mapsto> Regular m (if has_flag O_TRUNC flags then [] else b'))
            \<and> fds w' = (fresh_fd w, tmp) # fds w"
        using o t r1 c r2 z Inr fo u3 by (auto simp: open_op_def n3)
      with fr ne show ?thesis by blast
    qed
  qed
qed

text \<open>
  C1 does not hold of the code: the three \<^verbatim>\<open>except\<close> clauses around the collaborator
  remove the temporary file, but \<^verbatim>\<open>os.open\<close> of the finished artifact stands outside
  any \<^verbatim>\<open>try\<close>. When the driver refuses it (here with \<^verbatim>\<open>EMFILE\<close>, the process being
  out of descriptors), the error escapes as it is, no handle is returned, the table is
  unchanged, and the artifact stays on disk: \<^verbatim>\<open>os.remove\<close> was never called on it.
\<close>

theorem open_leaves_artifact_when_backing_open_fails:
  "fst (open_op (example_env\<lparr>open_fault := Some EMFILE\<rparr>) fs example_world ''/a.txt'' 0)
     = Inl (OSError EMFILE)
   \<and> fst (snd (open_op (example_env\<lparr>open_fault := Some EMFILE\<rparr>) fs example_world ''/a.txt'' 0))
     = fs
   \<and> nodes (snd (snd (open_op (example_env\<lparr>open_fault := Some EMFILE\<rparr>) fs example_world
        ''/a.txt'' 0))) ''/tmp/tmpabcd1234''
     = Some (Regular (example_meta\<lparr>perm := 384\<rparr>) ''hello!'')
   \<and> Ev_remove ''/tmp/tmpabcd1234''
       \<notin> set (trace (snd (snd (open_op (example_env\<lparr>open_fault := Some EMFILE\<rparr>) fs
             example_world ''/a.txt'' 0))))"
  by (simp add: eval_defs)

text \<open>
  The same leak needs no refusal from outside: with \<^verbatim>\<open>O_WRONLY | O_CREAT | O_EXCL\<close>
  the driver answers \<^verbatim>\<open>EEXIST\<close>, the artifact being there already.
\<close>

lemma open_leaves_artifact_when_flags_exclusive:
  "fst (open_op example_env fs example_world ''/a.txt'' (O_WRONLY OR O_CREAT OR O_EXCL))
     = Inl (OSError EEXIST)
   \<and> nodes (snd (snd (open_op example_env fs example_world ''/a.txt''
        (O_WRONLY OR O_CREAT OR O_EXCL)))) ''/tmp/tmpabcd1234''
     = Some (Regular (example_meta\<lparr>perm := 384\<rparr>) ''hello!'')"
  by (simp add: eval_defs)

subsection \<open>Artifacts and handles\<close>

lemma release_undisturbed:
  assumes r: "release None close_fault self w path fh = (r, self', w')"
      and t: "\<And>p. temp_files self fh = Some p \<Longrightarrow> p \<noteq> [] \<and> (\<exists>m b. nodes w p = Some (Regular m b))"
  shows "temp_files self' = (temp_files self)(fh := None)
       \<and> fds w' = filter (\<lambda>e. fst e \<noteq> fh) (fds w)
       \<and> nodes w' = (case temp_files self fh of None \<Rightarrow> nodes w | Some p \<Rightarrow> (nodes w)(p := None))"
proof -
  define w1 where "w1 = (case temp_files self fh of
                  None \<Rightarrow> w
                | Some p \<Rightarrow> if p = [] then w else snd (os_remove None p w))"
  obtain r0 where c: "os_close close_fault fh w1 = (r0, w')"
    and s: "self' = self\<lparr>temp_files := (temp_files self)(fh := None)\<rparr>"
    using r by (auto simp: release_def w1_def Let_def split: prod.splits sum.splits)
  have 1: "fds w1 = fds w
       \<and> nodes w1 = (case temp_files self fh of None \<Rightarrow> nodes w | Some p \<Rightarrow> (nodes w)(p := None))"
  proof (cases "temp_files self fh")
    case None
    then show ?thesis by (simp add: w1_def)
  next
    case (Some p)
    from t [OF Some] obtain m b where "p \<noteq> []" "nodes w p = Some (Regular m b)" by blast
    with Some show ?thesis by (simp add: w1_def os_remove_regular)
  qed
  from os_close_effect [OF c] 1 s show ?thesis by simp
qed

lemma consistent_init: "consistent w0 (init r, w0)"
  by (simp add: consistent_def init_def)

lemma consistent_open:
  assumes u: "undisturbed (Open env path flags)" and c: "consistent w0 (self, w)"
  shows "consistent w0 (snd (open_op env self w path flags))"
proof -
  obtain r self' w' where o: "open_op env self w path flags = (r, self', w')"
    by (rule prod_cases3)
  from open_op_undisturbed [OF u o] have "consistent w0 (self', w')"
  proof (elim disjE exE conjE)
    assume "self' = self" "nodes w' = nodes w" "fds w' = fds w"
    with c show ?thesis by (simp add: consistent_def fd_open_def)
  next
    fix tmp m b
    assume fr: "nodes w tmp = None" and ne: "tmp \<noteq> []"
      and s: "self' = self\<lparr>temp_files := (temp_files self)(fresh_fd w \<mapsto> tmp)\<rparr>"
      and n: "nodes w' = (nodes w)(tmp \<mapsto> Regular m b)"
      and f: "fds w' = (fresh_fd w, tmp) # fds w"
    from c have c1: "dom (nodes w0) \<subseteq> dom (nodes w)"
      and c2: "\<And>fh p. temp_files self fh = Some p \<Longrightarrow>
                 fd_open w fh \<and> p \<notin> dom (nodes w0) \<and> p \<noteq> [] \<and> (\<exists>m b. nodes w p = Some (Regular m b))"
      and c3: "\<And>fh fh' p. temp_files self fh = Some p \<Longrightarrow> temp_files self fh' = Some p \<Longrightarrow> fh = fh'"
      and c4: "\<And>p. p \<in> dom (nodes w) \<Longrightarrow> p \<notin> dom (nodes w0) \<Longrightarrow> \<exists>fh. temp_files self fh = Some p"
      by (simp_all add: consistent_def)
    have new: "tmp \<notin> dom (nodes w0)" using c1 fr by auto
    have unref: "temp_files self fh \<noteq> Some tmp" for fh
      using c2 [of fh tmp] fr by auto
    have unused: "temp_files self (fresh_fd w) = None"
      using c2 [of "fresh_fd w"] fresh_fd_not_open [of w]
      by (cases "temp_files self (fresh_fd w)") auto
    have op: "fd_open w' fh = (fh = fresh_fd w \<or> fd_open w fh)" for fh
      by (auto simp: fd_open_def f)
    have d1: "dom (nodes w0) \<subseteq> dom (nodes w')" using c1 by (auto simp: n)
    have d2: "fd_open w' fh \<and> p \<notin> dom (nodes w0) \<and> p \<noteq> [] \<and> (\<exists>m b. nodes w' p = Some (Regular m b))"
      if "temp_files self' fh = Some p" for fh p
    proof (cases "fh = fresh_fd w")
      case True
      with that have "p = tmp" by (simp add: s)
      with True new ne show ?thesis by (simp add: op n)
    next
      case False
      with that have old: "temp_files self fh = Some p" by (simp add: s)
      with unref have "p \<noteq> tmp" by auto
      with c2 [OF old] show ?thesis by (simp add: op n)
    qed
    have d3: "fh = fh'" if "temp_files self' fh = Some p" "temp_files self' fh' = Some p" for fh fh' p
      using that c3 [of fh p fh'] unref by (auto simp: s split: if_splits)
    have d4: "\<exists>fh. temp_files self' fh = Some p" if "p \<in> dom (nodes w')" "p \<notin> dom (nodes w0)" for p
    proof (cases "p = tmp")
      case True
      then show ?thesis by (auto simp: s)
    next
      case False
      with that have "p \<in> dom (nodes w)" by (auto simp: n)
      from c4 [OF this that(2)] obtain fh where h: "temp_files self fh = Some p" ..
      with unused have "fh \<noteq> fresh_fd w" by auto
      with h show ?thesis by (auto simp: s)
    qed
    from d1 d2 d3 d4 show ?thesis
      unfolding consistent_def fst_conv snd_conv by blast
  qed
  with o show ?thesis by simp
qed

lemma consistent_release:
  assumes c: "consistent w0 (self, w)"
  shows "consistent w0 (snd (release None close_fault self w path fh))"
proof -
  obtain r self' w' where o: "release None close_fault self w path fh = (r, self', w')"
    by (rule prod_cases3)
  from c have c1: "dom (nodes w0) \<subseteq> dom (nodes w)"
    and c2: "\<And>fh p. temp_files self fh = Some p \<Longrightarrow>
               fd_open w fh \<and> p \<notin> dom (nodes w0) \<and> p \<noteq> [] \<and> (\<exists>m b. nodes w p = Some (Regular m b))"
    and c3: "\<And>fh fh' p. temp_files self fh = Some p \<Longrightarrow> temp_files self fh' = Some p \<Longrightarrow> fh = fh'"
    and c4: "\<And>p. p \<in> dom (nodes w) \<Longrightarrow> p \<notin> dom (nodes w0) \<Longrightarrow> \<exists>fh. temp_files self fh = Some p"
    by (simp_all add: consistent_def)
  from release_undisturbed [OF o] c2
  have s: "temp_files self' = (temp_files self)(fh := None)"
    and f: "fds w' = filter (\<lambda>e. fst e \<noteq> fh) (fds w)"
    and n: "nodes w' = (case temp_files self fh of None \<Rightarrow> nodes w | Some p \<Rightarrow> (nodes w)(p := None))"
    by blast+
  have op: "fd_open w' h = (h \<noteq> fh \<and> fd_open w h)" for h
    by (auto simp: fd_open_def f)
  have kept: "nodes w' p = nodes w p" if "temp_files self fh \<noteq> Some p" for p
    using that by (auto simp: n split: option.splits)
  have d1: "dom (nodes w0) \<subseteq> dom (nodes w')"
  proof
    fix p assume p: "p \<in> dom (nodes w0)"
    with c2 [of fh p] have "temp_files self fh \<noteq> Some p" by auto
    from kept [OF this] p c1 show "p \<in> dom (nodes w')" by auto
  qed
  have d2: "fd_open w' h \<and> p \<notin> dom (nodes w0) \<and> p \<noteq> [] \<and> (\<exists>m b. nodes w' p = Some (Regular m b))"
    if "temp_files self' h = Some p" for h p
  proof -
    from that have hne: "h \<noteq> fh" and old: "temp_files self h = Some p"
      by (auto simp: s split: if_splits)
    from c3 [OF old] hne have "temp_files self fh \<noteq> Some p" by auto
    from kept [OF this] c2 [OF old] hne show ?thesis by (simp add: op)
  qed
  have d3: "h = h'" if "temp_files self' h = Some p" "temp_files self' h' = Some p" for h h' p
    using that c3 [of h p h'] by (auto simp: s split: if_splits)
  have d4: "\<exists>h. temp_files self' h = Some p" if "p \<in> dom (nodes w')" "p \<notin> dom (nodes w0)" for p
  proof -
    have ne: "temp_files self fh \<noteq> Some p"
      using that(1) by (auto simp: n)
    from kept [OF this] that(1) have "p \<in> dom (nodes w)" by (simp add: dom_def)
    from c4 [OF this that(2)] obtain h where h: "temp_files self h = Some p" ..
    with ne have "h \<noteq> fh" by auto
    with h show ?thesis by (auto simp: s)
  qed
  from d1 d2 d3 d4 have "consistent w0 (self', w')"
    unfolding consistent_def fst_conv snd_conv by blast
  with o show ?thesis by simp
qed

lemma consistent_step:
  assumes "undisturbed c" "consistent w0 s"
  shows "consistent w0 (step c s)"
proof (cases c)
  case (Open env path flags)
  with assms consistent_open [of env path flags w0 "fst s" "snd s"] show ?thesis
    by (simp add: step_def)
next
  case (Release rm_fault close_fault path fh)
  with assms have "rm_fault = None" by (simp add: undisturbed_def)
  with Release assms(2) consistent_release [of w0 "fst s" "snd s" close_fault path fh]
  show ?thesis by (simp add: step_def)
qed

lemma consistent_run:
  "\<forall>c\<in>set cs. undisturbed c \<Longrightarrow> consistent w0 s \<Longrightarrow> consistent w0 (run cs s)"
  by (induction cs arbitrary: s) (simp_all add: consistent_step)

lemma consistent_corresponds:
  assumes "consistent w0 s"
  shows "corresponds w0 s"
proof -
  from assms have c2: "\<And>fh p. temp_files (fst s) fh = Some p \<Longrightarrow>
               fd_open (snd s) fh \<and> p \<notin> dom (nodes w0) \<and> (\<exists>m b. nodes (snd s) p = Some (Regular m b))"
    and c4: "\<And>p. p \<in> dom (nodes (snd s)) \<Longrightarrow> p \<notin> dom (nodes w0) \<Longrightarrow> \<exists>fh. temp_files (fst s) fh = Some p"
    by (simp_all add: consistent_def)
  show ?thesis
    unfolding corresponds_def artifacts_def referenced_def
  proof (intro set_eqI iffI)
    fix p assume "p \<in> dom (nodes (snd s)) - dom (nodes w0)"
    then obtain fh where "temp_files (fst s) fh = Some p" using c4 by blast
    with c2 [OF this] show "p \<in> {p. \<exists>fh. fd_open (snd s) fh \<and> temp_files (fst s) fh = Some p}"
      by blast
  next
    fix p assume "p \<in> {p. \<exists>fh. fd_open (snd s) fh \<and> temp_files (fst s) fh = Some p}"
    then obtain fh where "temp_files (fst s) fh = Some p" by blast
    from c2 [OF this] show "p \<in> dom (nodes (snd s)) - dom (nodes w0)" by auto
  qed
qed

text \<open>
  C2, as stated, fails: \<^verbatim>\<open>release\<close> tolerates a refused removal. After opening
  \<^verbatim>\<open>/a.txt\<close> and releasing its handle while the driver refuses \<^verbatim>\<open>os.remove\<close> with
  \<^verbatim>\<open>EACCES\<close>, the artifact is on disk and the table is empty.
\<close>

theorem correspondence_lost_when_removal_refused:
  "\<not> corresponds example_world
       (run [Open example_env ''/a.txt'' 0, Release (Some EACCES) None ''/a.txt'' 3]
            (init ''/data'', example_world))"
proof -
  let ?s = "run [Open example_env ''/a.txt'' 0, Release (Some EACCES) None ''/a.txt'' 3]
            (init ''/data'', example_world)"
  have a: "nodes (snd ?s) ''/tmp/tmpabcd1234'' \<noteq> None"
    by (simp add: step_def eval_defs)
  have b: "nodes example_world ''/tmp/tmpabcd1234'' = None"
    by (simp add: example_world_def)
  have c: "temp_files (fst ?s) fh = None" for fh
    by (simp add: step_def eval_defs)
  from a b have "''/tmp/tmpabcd1234'' \<in> artifacts example_world (snd ?s)"
    by (auto simp: artifacts_def)
  moreover from c have "''/tmp/tmpabcd1234'' \<notin> referenced (fst ?s) (snd ?s)"
    by (simp add: referenced_def)
  ultimately show ?thesis
    unfolding corresponds_def by blast
qed

text \<open>
  C2, amended: start from a freshly initialised filesystem object on any disk \<open>w0\<close> and
  make any sequence of open and release calls in which every call is undisturbed (no
  removal is refused, the handle of the new temporary file closes, the driver opens the
  finished artifact with the requested flags). Then after every call, the files on
  disk that were not in \<open>w0\<close> are exactly the paths that a live handle maps to in
  \<^verbatim>\<open>self.temp_files\<close>.
\<close>

theorem correspondence_at_every_boundary:
  assumes "\<forall>c\<in>set cs. undisturbed c"
  shows "\<forall>k\<le>length cs. corresponds w0 (run (take k cs) (init r, w0))"
proof (intro allI impI)
  fix k assume "k \<le> length cs"
  from assms have "\<forall>c\<in>set (take k cs). undisturbed c"
    by (meson in_set_takeD)
  from consistent_run [OF this consistent_init]
  show "corresponds w0 (run (take k cs) (init r, w0))"
    by (rule consistent_corresponds)
qed

text \<open>
  Opening \<^verbatim>\<open>/a.txt\<close> and releasing its handle, undisturbed: after the open the
  artifact is on disk and referenced, after the release it is gone.
\<close>

theorem correspondence_at_every_boundary_witness:
  "undisturbed (Open example_env ''/a.txt'' 0) \<and> undisturbed (Release None None ''/a.txt'' 3)
   \<and> corresponds example_world
        (run (take 1 [Open example_env ''/a.txt'' 0, Release None None ''/a.txt'' 3])
             (init ''/data'', example_world))
   \<and> ''/tmp/tmpabcd1234'' \<in> artifacts example_world
        (snd (run (take 1 [Open example_env ''/a.txt'' 0, Release None None ''/a.txt'' 3])
             (init ''/data'', example_world)))
   \<and> corresponds example_world
        (run (take 2 [Open example_env ''/a.txt'' 0, Release None None ''/a.txt'' 3])
             (init ''/data'', example_world))
   \<and> ''/tmp/tmpabcd1234'' \<notin> artifacts example_world
        (snd (run (take 2 [Open example_env ''/a.txt'' 0, Release None None ''/a.txt'' 3])
             (init ''/data'', example_world)))"
proof -
  let ?cs = "[Open example_env ''/a.txt'' 0, Release None None ''/a.txt'' 3]"
  have u: "\<forall>c\<in>set ?cs. undisturbed c"
    by (simp add: undisturbed_def example_env_def flag_defs)
  have a: "''/tmp/tmpabcd1234'' \<in> artifacts example_world
             (snd (run (take 1 ?cs) (init ''/data'', example_world)))"
    by (simp add: artifacts_def dom_def step_def eval_defs)
  have b: "''/tmp/tmpabcd1234'' \<notin> artifacts example_world
             (snd (run (take 2 ?cs) (init ''/data'', example_world)))"
    by (simp add: artifacts_def dom_def step_def eval_defs)
  note t = correspondence_at_every_boundary [OF u, of example_world "''/data''", rule_format]
  have c1: "corresponds example_world (run (take 1 ?cs) (init ''/data'', example_world))"
    by (rule t) simp
  have c2: "corresponds example_world (run (take 2 ?cs) (init ''/data'', example_world))"
    by (rule t) simp
  from u a b c1 c2 show ?thesis by simp
qed

end
